theory Spec2Isabelle
  imports Main "HOL-Library.Char_ord" "HOL-Library.List_Lexorder"
begin

section \<open>Python values and errors\<close>

text \<open>
  The query builder of \<^verbatim>\<open>base/query.py\<close> receives lookup values of any Python type.
  The values modelled here are \<^verbatim>\<open>None\<close>, booleans, integers, strings, lists and tuples;
  a string is a list of characters, one per code point.
\<close>

datatype pyval = PNone | PBool bool | PInt int | PStr string | PList "pyval list" | PTuple "pyval list"

text \<open>The exceptions of \<^verbatim>\<open>base/exceptions.py\<close> and the built-in ones the modelled code can raise.\<close>

datatype error =
    DoesNotExist
  | MultipleObjectsReturned
  | QueryError
  | MigrationError
  | ConnectionError
  | TypeError
  | IndexError
  | ValueError
  | LoadError

text \<open>\<^verbatim>\<open>bool(value)\<close>, as used by \<^verbatim>\<open>if value:\<close>.\<close>

fun truthy :: "pyval \<Rightarrow> bool" where
  "truthy PNone = False"
| "truthy (PBool b) = b"
| "truthy (PInt i) = (i \<noteq> 0)"
| "truthy (PStr s) = (s \<noteq> [])"
| "truthy (PList xs) = (xs \<noteq> [])"
| "truthy (PTuple xs) = (xs \<noteq> [])"

text \<open>\<^verbatim>\<open>len(value)\<close>: a TypeError for a value without a length.\<close>

fun py_len :: "pyval \<Rightarrow> error + nat" where
  "py_len (PStr s) = Inr (length s)"
| "py_len (PList xs) = Inr (length xs)"
| "py_len (PTuple xs) = Inr (length xs)"
| "py_len v = Inl TypeError"

text \<open>The elements \<^verbatim>\<open>list.extend(value)\<close> appends: a TypeError for a value that is not iterable;
  iterating a string yields its characters as one-character strings.\<close>

fun py_iter :: "pyval \<Rightarrow> error + pyval list" where
  "py_iter (PStr s) = Inr (map (\<lambda>c. PStr [c]) s)"
| "py_iter (PList xs) = Inr xs"
| "py_iter (PTuple xs) = Inr xs"
| "py_iter v = Inl TypeError"

subsection \<open>Rendering values as text\<close>

definition digit_char :: "nat \<Rightarrow> char" where
  "digit_char d =
     (if d = 0 then CHR ''0'' else if d = 1 then CHR ''1'' else if d = 2 then CHR ''2''
      else if d = 3 then CHR ''3'' else if d = 4 then CHR ''4'' else if d = 5 then CHR ''5''
      else if d = 6 then CHR ''6'' else if d = 7 then CHR ''7'' else if d = 8 then CHR ''8''
      else CHR ''9'')"

fun nat_str :: "nat \<Rightarrow> string" where
  "nat_str n = (if n < 10 then [digit_char n] else nat_str (n div 10) @ [digit_char (n mod 10)])"

declare nat_str.simps [simp del]

text \<open>\<^verbatim>\<open>str(i)\<close> for an integer, as an f-string renders \<^verbatim>\<open>{self._limit}\<close>.\<close>

definition int_str :: "int \<Rightarrow> string" where
  "int_str i = (if i < 0 then CHR ''-'' # nat_str (nat (- i)) else nat_str (nat i))"

definition hex_char :: "nat \<Rightarrow> char" where
  "hex_char d =
     (if d < 10 then digit_char d else if d = 10 then CHR ''a'' else if d = 11 then CHR ''b''
      else if d = 12 then CHR ''c'' else if d = 13 then CHR ''d'' else if d = 14 then CHR ''e''
      else CHR ''f'')"

text \<open>\<^verbatim>\<open>repr\<close> of a string: double quotes only when the string has a single quote and no
  double quote; the quote, the backslash and the unprintable characters are escaped.\<close>

definition repr_quote :: "string \<Rightarrow> char" where
  "repr_quote s = (if CHR 0x27 \<in> set s \<and> CHR 0x22 \<notin> set s then CHR 0x22 else CHR 0x27)"

definition repr_char :: "char \<Rightarrow> char \<Rightarrow> string" where
  "repr_char q c =
     (let n = (of_char c :: nat) in
      if c = q \<or> c = CHR 0x5C then [CHR 0x5C, c]
      else if n = 9 then [CHR 0x5C, CHR ''t'']
      else if n = 10 then [CHR 0x5C, CHR ''n'']
      else if n = 13 then [CHR 0x5C, CHR ''r'']
      else if n < 32 \<or> n = 127 \<or> (128 \<le> n \<and> n \<le> 160) \<or> n = 173
        then [CHR 0x5C, CHR ''x'', hex_char (n div 16), hex_char (n mod 16)]
      else [c])"

definition repr_str :: "string \<Rightarrow> string" where
  "repr_str s = (let q = repr_quote s in q # concat (map (repr_char q) s) @ [q])"

text \<open>\<^verbatim>\<open>sep.join(parts)\<close>.\<close>

fun str_join :: "string \<Rightarrow> string list \<Rightarrow> string" where
  "str_join sep [] = []"
| "str_join sep [x] = x"
| "str_join sep (x # y # ys) = x @ sep @ str_join sep (y # ys)"

text \<open>\<^verbatim>\<open>repr(value)\<close>; for the values modelled, \<^verbatim>\<open>str\<close> differs from it on strings only.\<close>

fun py_repr :: "pyval \<Rightarrow> string" where
  "py_repr PNone = ''None''"
| "py_repr (PBool b) = (if b then ''True'' else ''False'')"
| "py_repr (PInt i) = int_str i"
| "py_repr (PStr s) = repr_str s"
| "py_repr (PList xs) = ''['' @ str_join '', '' (map py_repr xs) @ '']''"
| "py_repr (PTuple xs) =
     (case xs of [x] \<Rightarrow> ''('' @ py_repr x @ '',)''
      | _ \<Rightarrow> ''('' @ str_join '', '' (map py_repr xs) @ '')'')"

definition py_str :: "pyval \<Rightarrow> string" where
  "py_str v = (case v of PStr s \<Rightarrow> s | _ \<Rightarrow> py_repr v)"

section \<open>Lookup parsing and the operator table (\<^verbatim>\<open>base/utils.py\<close>)\<close>

text \<open>\<^verbatim>\<open>'__' in lookup\<close>: the separator occurs somewhere in the string.\<close>

fun has_dunder :: "string \<Rightarrow> bool" where
  "has_dunder (a # b # rest) = ((a = CHR ''_'' \<and> b = CHR ''_'') \<or> has_dunder (b # rest))"
| "has_dunder s = False"

text \<open>\<^verbatim>\<open>lookup.split('__')\<close>: the string is cut at the occurrences of the separator found
  from left to right, without overlap; \<open>cur\<close> is the part being read.\<close>

fun split_dunder :: "string \<Rightarrow> string \<Rightarrow> string list" where
  "split_dunder cur (a # b # rest) =
     (if a = CHR ''_'' \<and> b = CHR ''_'' then cur # split_dunder [] rest
      else split_dunder (cur @ [a]) (b # rest))"
| "split_dunder cur s = [cur @ s]"

definition parse_lookup :: "string \<Rightarrow> string \<times> string" where
  "parse_lookup lookup =
     (if has_dunder lookup
      then (let parts = split_dunder [] lookup in (str_join ''__'' (butlast parts), last parts))
      else (lookup, ''exact''))"

definition operators :: "(string \<times> string) list" where
  "operators =
     [(''exact'', ''=''), (''gt'', ''>''), (''gte'', ''>=''), (''lt'', ''<''), (''lte'', ''<=''),
      (''ne'', ''!=''), (''in'', ''IN''), (''contains'', ''LIKE''), (''icontains'', ''LIKE''),
      (''startswith'', ''LIKE''), (''istartswith'', ''LIKE''), (''endswith'', ''LIKE''),
      (''iendswith'', ''LIKE''), (''isnull'', ''IS NULL''), (''range'', ''BETWEEN'')]"

definition get_operator_sql :: "string \<Rightarrow> string" where
  "get_operator_sql operator = (case map_of operators operator of Some s \<Rightarrow> s | None \<Rightarrow> ''='')"

definition format_value_for_operator :: "pyval \<Rightarrow> string \<Rightarrow> pyval" where
  "format_value_for_operator v operator =
     (if operator \<in> set [''contains'', ''icontains''] then PStr (''%'' @ py_str v @ ''%'')
      else if operator \<in> set [''startswith'', ''istartswith''] then PStr (py_str v @ ''%'')
      else if operator \<in> set [''endswith'', ''iendswith''] then PStr (''%'' @ py_str v)
      else v)"

section \<open>The query builder (\<^verbatim>\<open>base/query.py\<close>)\<close>

text \<open>
  A model class, as far as the builder reads it: \<^verbatim>\<open>_table_name\<close>, \<^verbatim>\<open>__name__\<close> and
  \<^verbatim>\<open>_fields\<close>. A field is its attribute name, its database column and its
  \<^verbatim>\<open>to_python\<close> conversion, which belongs to the field-type system and may raise.
\<close>

record field =
  field_name :: string
  db_column :: string
  to_python :: "pyval \<Rightarrow> error + pyval"

record model =
  table_name :: string
  model_name :: string
  model_fields :: "field list"

type_synonym lookup = "string \<times> string \<times> pyval"

text \<open>A row of a cursor (\<^verbatim>\<open>sqlite3.Row\<close>): the column names with their values, in order.\<close>

type_synonym row = "(string \<times> pyval) list"

text \<open>The state of a \<^verbatim>\<open>QuerySet\<close>, field by field as \<^verbatim>\<open>__init__\<close> declares it.\<close>

record queryset =
  qs_model :: model
  qs_filters :: "lookup list"
  qs_excludes :: "lookup list"
  qs_order_by :: "string list"
  qs_limit :: "int option"
  qs_offset :: "int option"
  qs_select_related :: "string list"
  qs_distinct :: bool
  qs_values_fields :: "string list option"
  qs_cache :: "row list option"

definition new_queryset :: "model \<Rightarrow> queryset" where
  "new_queryset m =
     \<lparr>qs_model = m, qs_filters = [], qs_excludes = [], qs_order_by = [], qs_limit = None,
      qs_offset = None, qs_select_related = [], qs_distinct = False, qs_values_fields = None,
      qs_cache = None\<rparr>"

subsection \<open>SQL synthesis\<close>

text \<open>The body of the first loop of \<^verbatim>\<open>_build_where_clause\<close>: the condition a filter adds
  and the parameters it adds, or the exception it raises.\<close>

definition filter_condition :: "lookup \<Rightarrow> error + (string \<times> pyval list)" where
  "filter_condition t =
     (case t of (fname, operator, v) \<Rightarrow>
        (let sql_op = get_operator_sql operator in
         if operator = ''isnull'' then
           (if truthy v then Inr (fname @ '' IS NULL'', [])
            else Inr (fname @ '' IS NOT NULL'', []))
         else if operator = ''in'' then
           (case py_len v of
              Inl e \<Rightarrow> Inl e
            | Inr n \<Rightarrow>
                (let placeholders = str_join '','' (map (\<lambda>c. [c]) (replicate n CHR ''?'')) in
                 case py_iter v of
                   Inl e \<Rightarrow> Inl e
                 | Inr xs \<Rightarrow> Inr (fname @ '' '' @ sql_op @ '' ('' @ placeholders @ '')'', xs)))
         else if operator = ''range'' then
           (case py_iter v of
              Inl e \<Rightarrow> Inl e
            | Inr xs \<Rightarrow> Inr (fname @ '' BETWEEN ? AND ?'', xs))
         else Inr (fname @ '' '' @ sql_op @ '' ?'', [format_value_for_operator v operator])))"

text \<open>The body of the second loop: the condition and the parameters an exclusion adds.\<close>

definition exclude_condition :: "lookup \<Rightarrow> error + (string \<times> pyval list)" where
  "exclude_condition t =
     (case t of (fname, operator, v) \<Rightarrow>
        (let sql_op = get_operator_sql operator in
         if operator = ''isnull'' then
           (if truthy v then Inr (fname @ '' IS NOT NULL'', [])
            else Inr (fname @ '' IS NULL'', []))
         else if operator = ''in'' then
           (case py_len v of
              Inl e \<Rightarrow> Inl e
            | Inr n \<Rightarrow>
                (let placeholders = str_join '','' (map (\<lambda>c. [c]) (replicate n CHR ''?'')) in
                 case py_iter v of
                   Inl e \<Rightarrow> Inl e
                 | Inr xs \<Rightarrow> Inr (fname @ '' NOT '' @ sql_op @ '' ('' @ placeholders @ '')'', xs)))
         else Inr (''NOT ('' @ fname @ '' '' @ sql_op @ '' ?)'',
                   [format_value_for_operator v operator])))"

text \<open>The two loops, over the lists \<^verbatim>\<open>conditions\<close> and \<^verbatim>\<open>params\<close> they extend.\<close>

fun filters_loop ::
  "lookup list \<Rightarrow> string list \<Rightarrow> pyval list \<Rightarrow> error + (string list \<times> pyval list)" where
  "filters_loop [] conditions params = Inr (conditions, params)"
| "filters_loop (t # ts) conditions params =
     (case filter_condition t of
        Inl e \<Rightarrow> Inl e
      | Inr (c, ps) \<Rightarrow> filters_loop ts (conditions @ [c]) (params @ ps))"

fun excludes_loop ::
  "lookup list \<Rightarrow> string list \<Rightarrow> pyval list \<Rightarrow> error + (string list \<times> pyval list)" where
  "excludes_loop [] conditions params = Inr (conditions, params)"
| "excludes_loop (t # ts) conditions params =
     (case exclude_condition t of
        Inl e \<Rightarrow> Inl e
      | Inr (c, ps) \<Rightarrow> excludes_loop ts (conditions @ [c]) (params @ ps))"

definition build_conditions :: "queryset \<Rightarrow> error + (string list \<times> pyval list)" where
  "build_conditions qs =
     (case filters_loop (qs_filters qs) [] [] of
        Inl e \<Rightarrow> Inl e
      | Inr (conditions, params) \<Rightarrow> excludes_loop (qs_excludes qs) conditions params)"

definition build_where_clause :: "queryset \<Rightarrow> error + (string \<times> pyval list)" where
  "build_where_clause qs =
     (case build_conditions qs of
        Inl e \<Rightarrow> Inl e
      | Inr (conditions, params) \<Rightarrow>
          if conditions \<noteq> [] then Inr ('' WHERE '' @ str_join '' AND '' conditions, params)
          else Inr ([], params))"

text \<open>One entry of the ORDER BY clause: a leading \<^verbatim>\<open>-\<close> means descending.\<close>

definition order_part :: "string \<Rightarrow> string" where
  "order_part f = (case f of c # rest \<Rightarrow> (if c = CHR ''-'' then rest @ '' DESC'' else f @ '' ASC'')
                   | [] \<Rightarrow> f @ '' ASC'')"

definition select_clause :: "queryset \<Rightarrow> string" where
  "select_clause qs =
     (let select_fields =
            (case qs_values_fields qs of
               Some fs \<Rightarrow> (if fs \<noteq> [] then str_join '', '' fs else ''*'')
             | None \<Rightarrow> ''*'')
      in if qs_distinct qs
         then ''SELECT DISTINCT '' @ select_fields @ '' FROM '' @ table_name (qs_model qs)
         else ''SELECT '' @ select_fields @ '' FROM '' @ table_name (qs_model qs))"

definition order_clause :: "queryset \<Rightarrow> string" where
  "order_clause qs =
     (if qs_order_by qs \<noteq> [] then '' ORDER BY '' @ str_join '', '' (map order_part (qs_order_by qs))
      else [])"

definition paging_clause :: "queryset \<Rightarrow> string" where
  "paging_clause qs =
     (case qs_limit qs of Some n \<Rightarrow> '' LIMIT '' @ int_str n | None \<Rightarrow> []) @
     (case qs_offset qs of Some n \<Rightarrow> '' OFFSET '' @ int_str n | None \<Rightarrow> [])"

definition build_sql :: "queryset \<Rightarrow> error + (string \<times> pyval list)" where
  "build_sql qs =
     (case build_where_clause qs of
        Inl e \<Rightarrow> Inl e
      | Inr (where_clause, params) \<Rightarrow>
          Inr (select_clause qs @ where_clause @ order_clause qs @ paging_clause qs, params))"

subsection \<open>Chaining operations on builder states\<close>

text \<open>\<^verbatim>\<open>_clone\<close>: a new \<^verbatim>\<open>QuerySet\<close> of the same model that takes over every field but
  \<^verbatim>\<open>_cache\<close>, which stays as \<^verbatim>\<open>__init__\<close> set it.\<close>

definition clone :: "queryset \<Rightarrow> queryset" where
  "clone qs =
     (new_queryset (qs_model qs))
       \<lparr>qs_filters := qs_filters qs, qs_excludes := qs_excludes qs, qs_order_by := qs_order_by qs,
        qs_limit := qs_limit qs, qs_offset := qs_offset qs,
        qs_select_related := qs_select_related qs, qs_distinct := qs_distinct qs,
        qs_values_fields := qs_values_fields qs\<rparr>"

text \<open>The loop of \<^verbatim>\<open>filter\<close> and \<^verbatim>\<open>exclude\<close> over the keyword arguments, in their order.\<close>

fun append_lookups :: "lookup list \<Rightarrow> (string \<times> pyval) list \<Rightarrow> lookup list" where
  "append_lookups acc [] = acc"
| "append_lookups acc ((lookup, v) # kwargs) =
     (case parse_lookup lookup of
        (fname, operator) \<Rightarrow> append_lookups (acc @ [(fname, operator, v)]) kwargs)"

definition filter_qs :: "queryset \<Rightarrow> (string \<times> pyval) list \<Rightarrow> queryset" where
  "filter_qs qs kwargs = (let q = clone qs in q\<lparr>qs_filters := append_lookups (qs_filters q) kwargs\<rparr>)"

definition exclude :: "queryset \<Rightarrow> (string \<times> pyval) list \<Rightarrow> queryset" where
  "exclude qs kwargs = (let q = clone qs in q\<lparr>qs_excludes := append_lookups (qs_excludes q) kwargs\<rparr>)"

definition order_by :: "queryset \<Rightarrow> string list \<Rightarrow> queryset" where
  "order_by qs fs = (clone qs)\<lparr>qs_order_by := fs\<rparr>"

definition limit :: "queryset \<Rightarrow> int \<Rightarrow> queryset" where
  "limit qs n = (clone qs)\<lparr>qs_limit := Some n\<rparr>"

definition offset :: "queryset \<Rightarrow> int \<Rightarrow> queryset" where
  "offset qs n = (clone qs)\<lparr>qs_offset := Some n\<rparr>"

definition distinct_qs :: "queryset \<Rightarrow> queryset" where
  "distinct_qs qs = (clone qs)\<lparr>qs_distinct := True\<rparr>"

definition values_qs :: "queryset \<Rightarrow> string list \<Rightarrow> queryset" where
  "values_qs qs fs = (clone qs)\<lparr>qs_values_fields := (if fs \<noteq> [] then Some fs else None)\<rparr>"

definition select_related :: "queryset \<Rightarrow> string list \<Rightarrow> queryset" where
  "select_related qs fs = (let q = clone qs in q\<lparr>qs_select_related := qs_select_related q @ fs\<rparr>)"

section \<open>The connection (\<^verbatim>\<open>base/connections.py\<close>)\<close>

text \<open>
  The storage engine behind a connection is not part of the repository: it is a parameter.
  Running a statement with its parameters on a database state gives a cursor, or fails
  (\<^verbatim>\<open>sqlite3.Error\<close>), and a new database state; a commit changes the database state.
  A cursor is the rows it fetches and its \<^verbatim>\<open>rowcount\<close>.
\<close>

record cursor =
  cur_rows :: "row list"
  cur_rowcount :: int

record 'db engine =
  run :: "string \<Rightarrow> pyval list \<Rightarrow> 'db \<Rightarrow> cursor option \<times> 'db"
  commit_db :: "'db \<Rightarrow> 'db"

text \<open>A connection, taken as configured and open: the database state behind it and the
  statements that have reached \<^verbatim>\<open>Connection.execute\<close>, oldest first.\<close>

record 'db connection =
  conn_db :: 'db
  conn_issued :: "(string \<times> pyval list) list"

text \<open>\<^verbatim>\<open>Connection.execute\<close>: an engine failure is raised again as the ORM's ConnectionError.\<close>

definition execute ::
  "'db engine \<Rightarrow> string \<Rightarrow> pyval list \<Rightarrow> 'db connection \<Rightarrow> (error + cursor) \<times> 'db connection" where
  "execute eng sql params c =
     (case run eng sql params (conn_db c) of
        (r, d) \<Rightarrow>
          ((case r of None \<Rightarrow> Inl ConnectionError | Some cur \<Rightarrow> Inr cur),
           c\<lparr>conn_db := d, conn_issued := conn_issued c @ [(sql, params)]\<rparr>))"

definition commit :: "'db engine \<Rightarrow> 'db connection \<Rightarrow> 'db connection" where
  "commit eng c = c\<lparr>conn_db := commit_db eng (conn_db c)\<rparr>"

section \<open>Terminal operations of the builder\<close>

text \<open>\<^verbatim>\<open>_execute\<close>: the cached rows when there are any, else the rows of the built statement,
  which are stored in the cache of the builder.\<close>

definition execute_qs ::
  "'db engine \<Rightarrow> queryset \<Rightarrow> 'db connection \<Rightarrow> (error + row list) \<times> queryset \<times> 'db connection" where
  "execute_qs eng qs c =
     (case qs_cache qs of
        Some rows \<Rightarrow> (Inr rows, qs, c)
      | None \<Rightarrow>
          (case build_sql qs of
             Inl e \<Rightarrow> (Inl e, qs, c)
           | Inr (sql, params) \<Rightarrow>
               (case execute eng sql params c of
                  (Inl e, c') \<Rightarrow> (Inl e, qs, c')
                | (Inr cur, c') \<Rightarrow> (Inr (cur_rows cur), qs\<lparr>qs_cache := Some (cur_rows cur)\<rparr>, c'))))"

text \<open>
  \<^verbatim>\<open>row[name]\<close> on a \<^verbatim>\<open>sqlite3.Row\<close>: the value of the first column whose name is the key,
  or is the key up to the case of ASCII letters when both are ASCII; an IndexError when
  there is none.
\<close>

definition ascii_lower :: "char \<Rightarrow> char" where
  "ascii_lower c =
     (let n = (of_char c :: nat) in if 65 \<le> n \<and> n \<le> 90 then char_of (n + 32) else c)"

definition is_ascii :: "string \<Rightarrow> bool" where
  "is_ascii s = list_all (\<lambda>c. (of_char c :: nat) < 128) s"

definition equal_ignore_case :: "string \<Rightarrow> string \<Rightarrow> bool" where
  "equal_ignore_case a b =
     (a = b \<or> (is_ascii a \<and> is_ascii b \<and> length a = length b \<and>
                map ascii_lower a = map ascii_lower b))"

fun row_get :: "row \<Rightarrow> string \<Rightarrow> pyval option" where
  "row_get [] key = None"
| "row_get ((name, v) # cols) key = (if equal_ignore_case key name then Some v else row_get cols key)"

text \<open>What \<^verbatim>\<open>_create_instance\<close> returns: a dictionary of the row for a projection, else a
  model instance with the attributes it set.\<close>

datatype inst = DictInstance "(string \<times> pyval) list" | ModelInstance "(string \<times> pyval) list"

text \<open>\<^verbatim>\<open>dict(row)\<close>: each key of the row, at its first position, with \<^verbatim>\<open>row[key]\<close>.\<close>

fun dict_items :: "row \<Rightarrow> string list \<Rightarrow> error + (string \<times> pyval) list" where
  "dict_items r [] = Inr []"
| "dict_items r (k # ks) =
     (case row_get r k of
        None \<Rightarrow> Inl IndexError
      | Some v \<Rightarrow> (case dict_items r ks of Inl e \<Rightarrow> Inl e | Inr kvs \<Rightarrow> Inr ((k, v) # kvs)))"

definition dict_of_row :: "row \<Rightarrow> error + (string \<times> pyval) list" where
  "dict_of_row r = dict_items r (rev (remdups (rev (map fst r))))"

text \<open>The loop of \<^verbatim>\<open>_create_instance\<close> over the fields: a field whose column is among the
  keys of the row gets \<^verbatim>\<open>to_python(row[column])\<close>.\<close>

fun set_fields :: "field list \<Rightarrow> row \<Rightarrow> (string \<times> pyval) list \<Rightarrow> error + (string \<times> pyval) list" where
  "set_fields [] r attrs = Inr attrs"
| "set_fields (f # fs) r attrs =
     (if db_column f \<in> set (map fst r) then
        (case row_get r (db_column f) of
           None \<Rightarrow> Inl IndexError
         | Some v \<Rightarrow>
             (case to_python f v of
                Inl e \<Rightarrow> Inl e
              | Inr v' \<Rightarrow> set_fields fs r (attrs @ [(field_name f, v')])))
      else set_fields fs r attrs)"

definition create_instance :: "queryset \<Rightarrow> row \<Rightarrow> error + inst" where
  "create_instance qs r =
     (if (case qs_values_fields qs of Some fs \<Rightarrow> fs \<noteq> [] | None \<Rightarrow> False)
      then (case dict_of_row r of Inl e \<Rightarrow> Inl e | Inr items \<Rightarrow> Inr (DictInstance items))
      else (case set_fields (model_fields (qs_model qs)) r [] of
              Inl e \<Rightarrow> Inl e
            | Inr attrs \<Rightarrow> Inr (ModelInstance attrs)))"

fun create_instances :: "queryset \<Rightarrow> row list \<Rightarrow> error + inst list" where
  "create_instances qs [] = Inr []"
| "create_instances qs (r # rs) =
     (case create_instance qs r of
        Inl e \<Rightarrow> Inl e
      | Inr i \<Rightarrow> (case create_instances qs rs of Inl e \<Rightarrow> Inl e | Inr is \<Rightarrow> Inr (i # is)))"

definition all_qs ::
  "'db engine \<Rightarrow> queryset \<Rightarrow> 'db connection \<Rightarrow> (error + inst list) \<times> queryset \<times> 'db connection" where
  "all_qs eng qs c =
     (case execute_qs eng qs c of
        (Inl e, qs', c') \<Rightarrow> (Inl e, qs', c')
      | (Inr rows, qs', c') \<Rightarrow> (create_instances qs' rows, qs', c'))"

text \<open>\<^verbatim>\<open>get\<close>, \<^verbatim>\<open>first\<close> and \<^verbatim>\<open>last\<close> run a clone of the receiver: the receiver itself does not
  change, and only the outcome and the connection are returned.\<close>

definition get ::
  "'db engine \<Rightarrow> queryset \<Rightarrow> (string \<times> pyval) list \<Rightarrow> 'db connection \<Rightarrow>
   (error + inst) \<times> 'db connection" where
  "get eng qs kwargs c =
     (let q = filter_qs qs kwargs in
      case all_qs eng q c of
        (Inl e, q', c') \<Rightarrow> (Inl e, c')
      | (Inr results, q', c') \<Rightarrow>
          if length results = 0 then (Inl DoesNotExist, c')
          else if length results > 1 then (Inl MultipleObjectsReturned, c')
          else (Inr (hd results), c'))"

text \<open>The builder \<^verbatim>\<open>first\<close> runs, its local \<^verbatim>\<open>qs\<close>.\<close>

definition first_query :: "queryset \<Rightarrow> queryset" where
  "first_query qs = limit qs 1"

definition first ::
  "'db engine \<Rightarrow> queryset \<Rightarrow> 'db connection \<Rightarrow> (error + inst option) \<times> 'db connection" where
  "first eng qs c =
     (case all_qs eng (first_query qs) c of
        (Inl e, q', c') \<Rightarrow> (Inl e, c')
      | (Inr results, q', c') \<Rightarrow>
          (Inr (case results of [] \<Rightarrow> None | r # rest \<Rightarrow> Some r), c'))"

text \<open>The ordering \<^verbatim>\<open>last\<close> asks for: each name of \<^verbatim>\<open>self._order_by or ['id']\<close> with its
  leading \<^verbatim>\<open>-\<close> removed, or added when there is none.\<close>

definition flip_field :: "string \<Rightarrow> string" where
  "flip_field f = (case f of c # rest \<Rightarrow> (if c = CHR ''-'' then rest else CHR ''-'' # f)
                   | [] \<Rightarrow> CHR ''-'' # f)"

text \<open>The builder \<^verbatim>\<open>last\<close> runs, its local \<^verbatim>\<open>qs\<close>.\<close>

definition last_query :: "queryset \<Rightarrow> queryset" where
  "last_query qs =
     limit (order_by qs (map flip_field
              (if qs_order_by qs \<noteq> [] then qs_order_by qs else [''id'']))) 1"

definition last_qs ::
  "'db engine \<Rightarrow> queryset \<Rightarrow> 'db connection \<Rightarrow> (error + inst option) \<times> 'db connection" where
  "last_qs eng qs c =
     (case all_qs eng (last_query qs) c of
        (Inl e, q', c') \<Rightarrow> (Inl e, c')
      | (Inr results, q', c') \<Rightarrow>
          (Inr (case results of [] \<Rightarrow> None | r # rest \<Rightarrow> Some r), c'))"

text \<open>\<^verbatim>\<open>s.replace(old, new, 1)\<close>: the first occurrence of \<open>old\<close> from the left is replaced.\<close>

fun replace_first :: "string \<Rightarrow> string \<Rightarrow> string \<Rightarrow> string" where
  "replace_first old new [] = (if old = [] then new else [])"
| "replace_first old new (c # rest) =
     (if take (length old) (c # rest) = old then new @ drop (length old) (c # rest)
      else c # replace_first old new rest)"

definition exists ::
  "'db engine \<Rightarrow> queryset \<Rightarrow> 'db connection \<Rightarrow> (error + bool) \<times> 'db connection" where
  "exists eng qs c =
     (case build_sql qs of
        Inl e \<Rightarrow> (Inl e, c)
      | Inr (sql, params) \<Rightarrow>
          (case execute eng (replace_first ''SELECT *'' ''SELECT 1'' sql) params c of
             (Inl e, c') \<Rightarrow> (Inl e, c')
           | (Inr cur, c') \<Rightarrow> (Inr (cur_rows cur \<noteq> []), c')))"

text \<open>\<^verbatim>\<open>count\<close>: \<^verbatim>\<open>cursor.fetchone()[0]\<close> is the first column of the first row; subscripting
  \<^verbatim>\<open>None\<close> is a TypeError and a row without columns has no index 0.\<close>

definition count_qs ::
  "'db engine \<Rightarrow> queryset \<Rightarrow> 'db connection \<Rightarrow> (error + pyval) \<times> 'db connection" where
  "count_qs eng qs c =
     (case build_where_clause qs of
        Inl e \<Rightarrow> (Inl e, c)
      | Inr (where_clause, params) \<Rightarrow>
          (case execute eng (''SELECT COUNT(*) FROM '' @ table_name (qs_model qs) @ where_clause)
                  params c of
             (Inl e, c') \<Rightarrow> (Inl e, c')
           | (Inr cur, c') \<Rightarrow>
               (case cur_rows cur of
                  [] \<Rightarrow> (Inl TypeError, c')
                | r # rest \<Rightarrow> (case r of [] \<Rightarrow> (Inl IndexError, c') | (k, v) # cols \<Rightarrow> (Inr v, c')))))"

definition len_qs ::
  "'db engine \<Rightarrow> queryset \<Rightarrow> 'db connection \<Rightarrow> (error + pyval) \<times> 'db connection" where
  "len_qs eng qs c = count_qs eng qs c"

definition delete ::
  "'db engine \<Rightarrow> queryset \<Rightarrow> 'db connection \<Rightarrow> (error + int) \<times> 'db connection" where
  "delete eng qs c =
     (case build_where_clause qs of
        Inl e \<Rightarrow> (Inl e, c)
      | Inr (where_clause, params) \<Rightarrow>
          if where_clause = [] then (Inl QueryError, c)
          else (case execute eng (''DELETE FROM '' @ table_name (qs_model qs) @ where_clause)
                       params c of
                  (Inl e, c') \<Rightarrow> (Inl e, c')
                | (Inr cur, c') \<Rightarrow> (Inr (cur_rowcount cur), commit eng c')))"

section \<open>Builder objects in a store\<close>

text \<open>
  In the source a \<^verbatim>\<open>QuerySet\<close> is an object whose list-valued fields refer to list objects,
  and \<^verbatim>\<open>append\<close> and \<^verbatim>\<open>extend\<close> change a list in place. The store below keeps the list
  objects and the builder objects at addresses, so that what a chaining call does to
  the lists of its receiver is visible. \<^verbatim>\<open>_limit\<close>, \<^verbatim>\<open>_offset\<close>, \<^verbatim>\<open>_distinct\<close> and
  \<^verbatim>\<open>_cache\<close> are only ever assigned and are kept in the object.
\<close>

type_synonym addr = nat

record qs_obj =
  o_model :: model
  o_filters :: addr
  o_excludes :: addr
  o_order_by :: addr
  o_limit :: "int option"
  o_offset :: "int option"
  o_select_related :: addr
  o_distinct :: bool
  o_values_fields :: "addr option"
  o_cache :: "row list option"

datatype obj = Lookups "lookup list" | Names "string list" | Builder qs_obj

record store =
  cells :: "addr \<Rightarrow> obj option"
  next_addr :: addr

definition alloc :: "store \<Rightarrow> obj \<Rightarrow> addr \<times> store" where
  "alloc s ob = (next_addr s, s\<lparr>cells := (cells s)(next_addr s \<mapsto> ob), next_addr := Suc (next_addr s)\<rparr>)"

definition lookups_at :: "store \<Rightarrow> addr \<Rightarrow> lookup list" where
  "lookups_at s a = (case cells s a of Some (Lookups xs) \<Rightarrow> xs | _ \<Rightarrow> [])"

definition names_at :: "store \<Rightarrow> addr \<Rightarrow> string list" where
  "names_at s a = (case cells s a of Some (Names xs) \<Rightarrow> xs | _ \<Rightarrow> [])"

definition builder_at :: "store \<Rightarrow> addr \<Rightarrow> qs_obj option" where
  "builder_at s a = (case cells s a of Some (Builder b) \<Rightarrow> Some b | _ \<Rightarrow> None)"

text \<open>The builder state an object stands for: its fields, with the lists they refer to.\<close>

definition view :: "store \<Rightarrow> addr \<Rightarrow> queryset option" where
  "view s a =
     (case builder_at s a of
        None \<Rightarrow> None
      | Some b \<Rightarrow>
          Some \<lparr>qs_model = o_model b, qs_filters = lookups_at s (o_filters b),
                qs_excludes = lookups_at s (o_excludes b), qs_order_by = names_at s (o_order_by b),
                qs_limit = o_limit b, qs_offset = o_offset b,
                qs_select_related = names_at s (o_select_related b), qs_distinct = o_distinct b,
                qs_values_fields = map_option (names_at s) (o_values_fields b),
                qs_cache = o_cache b\<rparr>)"

text \<open>An object of the store whose references all point to allocated cells.\<close>

definition allocated :: "store \<Rightarrow> addr \<Rightarrow> bool" where
  "allocated s a =
     (case builder_at s a of
        None \<Rightarrow> False
      | Some b \<Rightarrow>
          a < next_addr s \<and> o_filters b < next_addr s \<and> o_excludes b < next_addr s \<and>
          o_order_by b < next_addr s \<and> o_select_related b < next_addr s \<and>
          (case o_values_fields b of None \<Rightarrow> True | Some r \<Rightarrow> r < next_addr s))"

text \<open>\<^verbatim>\<open>QuerySet(model)\<close>: \<^verbatim>\<open>__init__\<close> makes four empty lists of its own.\<close>

definition new_builder :: "store \<Rightarrow> model \<Rightarrow> addr \<times> store" where
  "new_builder s m =
     (case alloc s (Lookups []) of (f, s1) \<Rightarrow>
      case alloc s1 (Lookups []) of (e, s2) \<Rightarrow>
      case alloc s2 (Names []) of (ob, s3) \<Rightarrow>
      case alloc s3 (Names []) of (sr, s4) \<Rightarrow>
        alloc s4 (Builder \<lparr>o_model = m, o_filters = f, o_excludes = e, o_order_by = ob,
                           o_limit = None, o_offset = None, o_select_related = sr,
                           o_distinct = False, o_values_fields = None, o_cache = None\<rparr>))"

text \<open>Assigning the fields of the builder at an address, and changing a list in place.\<close>

definition update_builder :: "store \<Rightarrow> addr \<Rightarrow> (qs_obj \<Rightarrow> qs_obj) \<Rightarrow> store" where
  "update_builder s a f =
     (case builder_at s a of
        None \<Rightarrow> s
      | Some b \<Rightarrow> s\<lparr>cells := (cells s)(a \<mapsto> Builder (f b))\<rparr>)"

definition extend_lookups :: "store \<Rightarrow> addr \<Rightarrow> lookup list \<Rightarrow> store" where
  "extend_lookups s a xs = s\<lparr>cells := (cells s)(a \<mapsto> Lookups (lookups_at s a @ xs))\<rparr>"

definition extend_names :: "store \<Rightarrow> addr \<Rightarrow> string list \<Rightarrow> store" where
  "extend_names s a xs = s\<lparr>cells := (cells s)(a \<mapsto> Names (names_at s a @ xs))\<rparr>"

text \<open>\<^verbatim>\<open>_clone\<close>: a new object with copies of the four lists of the receiver; the list of
  \<^verbatim>\<open>_values_fields\<close> is shared, not copied. There is no clone of an address that holds no
  builder.\<close>

definition clone_obj :: "store \<Rightarrow> addr \<Rightarrow> (addr \<times> store) option" where
  "clone_obj s a =
     (case builder_at s a of
        None \<Rightarrow> None
      | Some self \<Rightarrow>
          (case new_builder s (o_model self) of (q, s0) \<Rightarrow>
           case alloc s0 (Lookups (lookups_at s0 (o_filters self))) of (f, s1) \<Rightarrow>
           case alloc s1 (Lookups (lookups_at s1 (o_excludes self))) of (e, s2) \<Rightarrow>
           case alloc s2 (Names (names_at s2 (o_order_by self))) of (ob, s3) \<Rightarrow>
           case alloc s3 (Names (names_at s3 (o_select_related self))) of (sr, s4) \<Rightarrow>
             Some (q, update_builder s4 q
                        (\<lambda>b. b\<lparr>o_filters := f, o_excludes := e, o_order_by := ob,
                                o_limit := o_limit self, o_offset := o_offset self,
                                o_select_related := sr, o_distinct := o_distinct self,
                                o_values_fields := o_values_fields self\<rparr>))))"

text \<open>The loop of \<^verbatim>\<open>filter\<close> and \<^verbatim>\<open>exclude\<close>: one \<^verbatim>\<open>append\<close> to the list at \<open>a\<close> for each
  keyword argument.\<close>

fun append_lookups_at :: "store \<Rightarrow> addr \<Rightarrow> (string \<times> pyval) list \<Rightarrow> store" where
  "append_lookups_at s a [] = s"
| "append_lookups_at s a ((lookup, v) # kwargs) =
     (case parse_lookup lookup of
        (fname, operator) \<Rightarrow> append_lookups_at (extend_lookups s a [(fname, operator, v)]) a kwargs)"

definition filter_obj :: "store \<Rightarrow> addr \<Rightarrow> (string \<times> pyval) list \<Rightarrow> (addr \<times> store) option" where
  "filter_obj s a kwargs =
     (case clone_obj s a of
        None \<Rightarrow> None
      | Some (q, s1) \<Rightarrow>
          (case builder_at s1 q of
             None \<Rightarrow> None
           | Some b \<Rightarrow> Some (q, append_lookups_at s1 (o_filters b) kwargs)))"

definition exclude_obj :: "store \<Rightarrow> addr \<Rightarrow> (string \<times> pyval) list \<Rightarrow> (addr \<times> store) option" where
  "exclude_obj s a kwargs =
     (case clone_obj s a of
        None \<Rightarrow> None
      | Some (q, s1) \<Rightarrow>
          (case builder_at s1 q of
             None \<Rightarrow> None
           | Some b \<Rightarrow> Some (q, append_lookups_at s1 (o_excludes b) kwargs)))"

definition order_by_obj :: "store \<Rightarrow> addr \<Rightarrow> string list \<Rightarrow> (addr \<times> store) option" where
  "order_by_obj s a fs =
     (case clone_obj s a of
        None \<Rightarrow> None
      | Some (q, s1) \<Rightarrow>
          (case alloc s1 (Names fs) of (l, s2) \<Rightarrow>
             Some (q, update_builder s2 q (\<lambda>b. b\<lparr>o_order_by := l\<rparr>))))"

definition limit_obj :: "store \<Rightarrow> addr \<Rightarrow> int \<Rightarrow> (addr \<times> store) option" where
  "limit_obj s a n =
     (case clone_obj s a of
        None \<Rightarrow> None
      | Some (q, s1) \<Rightarrow> Some (q, update_builder s1 q (\<lambda>b. b\<lparr>o_limit := Some n\<rparr>)))"

definition offset_obj :: "store \<Rightarrow> addr \<Rightarrow> int \<Rightarrow> (addr \<times> store) option" where
  "offset_obj s a n =
     (case clone_obj s a of
        None \<Rightarrow> None
      | Some (q, s1) \<Rightarrow> Some (q, update_builder s1 q (\<lambda>b. b\<lparr>o_offset := Some n\<rparr>)))"

definition distinct_obj :: "store \<Rightarrow> addr \<Rightarrow> (addr \<times> store) option" where
  "distinct_obj s a =
     (case clone_obj s a of
        None \<Rightarrow> None
      | Some (q, s1) \<Rightarrow> Some (q, update_builder s1 q (\<lambda>b. b\<lparr>o_distinct := True\<rparr>)))"

definition values_obj :: "store \<Rightarrow> addr \<Rightarrow> string list \<Rightarrow> (addr \<times> store) option" where
  "values_obj s a fs =
     (case clone_obj s a of
        None \<Rightarrow> None
      | Some (q, s1) \<Rightarrow>
          if fs \<noteq> [] then
            (case alloc s1 (Names fs) of (l, s2) \<Rightarrow>
               Some (q, update_builder s2 q (\<lambda>b. b\<lparr>o_values_fields := Some l\<rparr>)))
          else Some (q, update_builder s1 q (\<lambda>b. b\<lparr>o_values_fields := None\<rparr>)))"

definition select_related_obj :: "store \<Rightarrow> addr \<Rightarrow> string list \<Rightarrow> (addr \<times> store) option" where
  "select_related_obj s a fs =
     (case clone_obj s a of
        None \<Rightarrow> None
      | Some (q, s1) \<Rightarrow>
          (case builder_at s1 q of
             None \<Rightarrow> None
           | Some b \<Rightarrow> Some (q, extend_names s1 (o_select_related b) fs)))"

section \<open>Migrations (\<^verbatim>\<open>base/migrations.py\<close>)\<close>

datatype operation =
    CreateTable string "(string \<times> string) list"
  | DropTable string
  | AddColumn string string string

text \<open>The statement \<^verbatim>\<open>apply\<close> sends for an operation.\<close>

fun apply_sql :: "operation \<Rightarrow> string" where
  "apply_sql (CreateTable t fs) =
     ''CREATE TABLE IF NOT EXISTS '' @ t @ '' ('' @
       str_join '', '' (map (\<lambda>(name, definition). name @ '' '' @ definition) fs) @ '')''"
| "apply_sql (DropTable t) = ''DROP TABLE IF EXISTS '' @ t"
| "apply_sql (AddColumn t col definition) =
     ''ALTER TABLE '' @ t @ '' ADD COLUMN '' @ col @ '' '' @ definition"

definition apply_op ::
  "'db engine \<Rightarrow> operation \<Rightarrow> 'db connection \<Rightarrow> (error + unit) \<times> 'db connection" where
  "apply_op eng op c =
     (case execute eng (apply_sql op) [] c of
        (Inl e, c') \<Rightarrow> (Inl e, c')
      | (Inr cur, c') \<Rightarrow> (Inr (), c'))"

fun reverse_op ::
  "'db engine \<Rightarrow> operation \<Rightarrow> 'db connection \<Rightarrow> (error + unit) \<times> 'db connection" where
  "reverse_op eng (CreateTable t fs) c =
     (case execute eng (''DROP TABLE IF EXISTS '' @ t) [] c of
        (Inl e, c') \<Rightarrow> (Inl e, c')
      | (Inr cur, c') \<Rightarrow> (Inr (), c'))"
| "reverse_op eng (DropTable t) c = (Inl MigrationError, c)"
| "reverse_op eng (AddColumn t col definition) c = (Inl MigrationError, c)"

text \<open>\<^verbatim>\<open>Migration.apply\<close> and \<^verbatim>\<open>Migration.reverse\<close>: the operations one after the other, up to
  the first that raises, then a commit.\<close>

fun apply_operations ::
  "'db engine \<Rightarrow> operation list \<Rightarrow> 'db connection \<Rightarrow> (error + unit) \<times> 'db connection" where
  "apply_operations eng [] c = (Inr (), c)"
| "apply_operations eng (op # ops) c =
     (case apply_op eng op c of
        (Inl e, c') \<Rightarrow> (Inl e, c')
      | (Inr u, c') \<Rightarrow> apply_operations eng ops c')"

definition migration_apply ::
  "'db engine \<Rightarrow> operation list \<Rightarrow> 'db connection \<Rightarrow> (error + unit) \<times> 'db connection" where
  "migration_apply eng ops c =
     (case apply_operations eng ops c of
        (Inl e, c') \<Rightarrow> (Inl e, c')
      | (Inr u, c') \<Rightarrow> (Inr (), commit eng c'))"

fun reverse_operations ::
  "'db engine \<Rightarrow> operation list \<Rightarrow> 'db connection \<Rightarrow> (error + unit) \<times> 'db connection" where
  "reverse_operations eng [] c = (Inr (), c)"
| "reverse_operations eng (op # ops) c =
     (case reverse_op eng op c of
        (Inl e, c') \<Rightarrow> (Inl e, c')
      | (Inr u, c') \<Rightarrow> reverse_operations eng ops c')"

definition migration_reverse ::
  "'db engine \<Rightarrow> operation list \<Rightarrow> 'db connection \<Rightarrow> (error + unit) \<times> 'db connection" where
  "migration_reverse eng ops c =
     (case reverse_operations eng (rev ops) c of
        (Inl e, c') \<Rightarrow> (Inl e, c')
      | (Inr u, c') \<Rightarrow> (Inr (), commit eng c'))"

subsection \<open>The migration manager\<close>

text \<open>The statement of \<^verbatim>\<open>create_migrations_table\<close>, a triple-quoted text with its line
  breaks and indentation.\<close>

definition create_migrations_sql :: string where
  "create_migrations_sql =
     [CHR 0x0A] @ ''        CREATE TABLE IF NOT EXISTS _migrations ('' @
     [CHR 0x0A] @ ''            id INTEGER PRIMARY KEY AUTOINCREMENT,'' @
     [CHR 0x0A] @ ''            name VARCHAR(255) UNIQUE NOT NULL,'' @
     [CHR 0x0A] @ ''            applied_at TIMESTAMP DEFAULT CURRENT_TIMESTAMP'' @
     [CHR 0x0A] @ ''        )'' @
     [CHR 0x0A] @ ''        ''"

definition select_applied_sql :: string where
  "select_applied_sql = ''SELECT name FROM _migrations ORDER BY id''"

definition insert_applied_sql :: string where
  "insert_applied_sql = ''INSERT INTO _migrations (name) VALUES (?)''"

definition create_migrations_table ::
  "'db engine \<Rightarrow> 'db connection \<Rightarrow> (error + unit) \<times> 'db connection" where
  "create_migrations_table eng c =
     (case execute eng create_migrations_sql [] c of
        (Inl e, c') \<Rightarrow> (Inl e, c')
      | (Inr cur, c') \<Rightarrow> (Inr (), commit eng c'))"

text \<open>\<^verbatim>\<open>[row[0] for row in cursor.fetchall()]\<close>: a row without columns has no index 0.\<close>

fun first_columns :: "row list \<Rightarrow> error + pyval list" where
  "first_columns [] = Inr []"
| "first_columns (r # rs) =
     (case r of
        [] \<Rightarrow> Inl IndexError
      | (k, v) # cols \<Rightarrow> (case first_columns rs of Inl e \<Rightarrow> Inl e | Inr vs \<Rightarrow> Inr (v # vs)))"

text \<open>\<^verbatim>\<open>get_applied_migrations\<close>. \<^verbatim>\<open>Connection.execute\<close> raises the ORM's ConnectionError for
  every engine failure, which the handler for \<^verbatim>\<open>sqlite3.OperationalError\<close> does not catch.\<close>

definition get_applied_migrations ::
  "'db engine \<Rightarrow> 'db connection \<Rightarrow> (error + pyval list) \<times> 'db connection" where
  "get_applied_migrations eng c =
     (case execute eng select_applied_sql [] c of
        (Inl e, c') \<Rightarrow> (Inl e, c')
      | (Inr cur, c') \<Rightarrow> (first_columns (cur_rows cur), c'))"

definition mark_migration_applied ::
  "'db engine \<Rightarrow> string \<Rightarrow> 'db connection \<Rightarrow> (error + unit) \<times> 'db connection" where
  "mark_migration_applied eng name c =
     (case execute eng insert_applied_sql [PStr name] c of
        (Inl e, c') \<Rightarrow> (Inl e, c')
      | (Inr cur, c') \<Rightarrow> (Inr (), commit eng c'))"

text \<open>
  The migrations directory: the file names \<^verbatim>\<open>os.listdir\<close> gives, each with what executing
  the file leaves in \<^verbatim>\<open>operations\<close> (the empty list when the file defines none), or the
  exception executing it raises.
\<close>

type_synonym migrations_dir = "(string \<times> (error + operation list)) list"

definition endswith :: "string \<Rightarrow> string \<Rightarrow> bool" where
  "endswith s suffix = (length suffix \<le> length s \<and> drop (length s - length suffix) s = suffix)"

definition startswith :: "string \<Rightarrow> string \<Rightarrow> bool" where
  "startswith s pre = (take (length pre) s = pre)"

text \<open>\<^verbatim>\<open>sorted([f[:-3] for f in os.listdir(...) if f.endswith('.py') and not f.startswith('__')])\<close>\<close>

definition migration_files :: "migrations_dir \<Rightarrow> string list" where
  "migration_files dir =
     sort (map (\<lambda>f. take (length f - 3) f)
             (filter (\<lambda>f. endswith f ''.py'' \<and> \<not> startswith f ''__'') (map fst dir)))"

text \<open>The first part of \<^verbatim>\<open>migrate\<close>, up to the list \<^verbatim>\<open>pending\<close>.\<close>

definition pending_migrations ::
  "'db engine \<Rightarrow> migrations_dir \<Rightarrow> 'db connection \<Rightarrow> (error + string list) \<times> 'db connection" where
  "pending_migrations eng dir c =
     (case create_migrations_table eng c of
        (Inl e, c1) \<Rightarrow> (Inl e, c1)
      | (Inr u, c1) \<Rightarrow>
          (case get_applied_migrations eng c1 of
             (Inl e, c2) \<Rightarrow> (Inl e, c2)
           | (Inr applied, c2) \<Rightarrow>
               (Inr (filter (\<lambda>m. PStr m \<notin> set applied) (migration_files dir)), c2)))"

text \<open>The loop of \<^verbatim>\<open>migrate\<close> over the pending names: the file is executed outside the
  \<^verbatim>\<open>try\<close>, so its exception is raised as it is; whatever applying or recording raises
  becomes a MigrationError, and the loop stops there. The names come from the listing of
  the directory, so the file of a pending name is always found.\<close>

fun apply_pending ::
  "'db engine \<Rightarrow> migrations_dir \<Rightarrow> string list \<Rightarrow> 'db connection \<Rightarrow>
   (error + unit) \<times> 'db connection" where
  "apply_pending eng dir [] c = (Inr (), c)"
| "apply_pending eng dir (name # names) c =
     (case map_of dir (name @ ''.py'') of
        None \<Rightarrow> (Inl LoadError, c)
      | Some (Inl e) \<Rightarrow> (Inl e, c)
      | Some (Inr ops) \<Rightarrow>
          (case migration_apply eng ops c of
             (Inl e, c1) \<Rightarrow> (Inl MigrationError, c1)
           | (Inr u, c1) \<Rightarrow>
               (case mark_migration_applied eng name c1 of
                  (Inl e, c2) \<Rightarrow> (Inl MigrationError, c2)
                | (Inr u', c2) \<Rightarrow> apply_pending eng dir names c2)))"

definition migrate ::
  "'db engine \<Rightarrow> migrations_dir \<Rightarrow> 'db connection \<Rightarrow> (error + unit) \<times> 'db connection" where
  "migrate eng dir c =
     (case pending_migrations eng dir c of
        (Inl e, c') \<Rightarrow> (Inl e, c')
      | (Inr pending, c') \<Rightarrow>
          if pending = [] then (Inr (), c') else apply_pending eng dir pending c')"

section \<open>Notions used to state the properties\<close>

text \<open>The \<^verbatim>\<open>?\<close> placeholders of a statement are the question marks in its text.\<close>

definition placeholders :: "string \<Rightarrow> nat" where
  "placeholders sql = count_list sql CHR ''?''"

definition no_qmark :: "string \<Rightarrow> bool" where
  "no_qmark s = (CHR ''?'' \<notin> set s)"

text \<open>Conditions paired with the parameters they bind: each has as many placeholders as
  parameters.\<close>

definition aligned :: "(string \<times> pyval list) list \<Rightarrow> bool" where
  "aligned rs = list_all (\<lambda>(c, ps). placeholders c = length ps) rs"

text \<open>No name that the builder copies into the statement (table, lookup field, ordering
  and projection names) has a question mark in it.\<close>

definition plain_identifiers :: "queryset \<Rightarrow> bool" where
  "plain_identifiers qs =
     (no_qmark (table_name (qs_model qs)) \<and>
      list_all (\<lambda>t. no_qmark (fst t)) (qs_filters qs @ qs_excludes qs) \<and>
      list_all no_qmark (qs_order_by qs) \<and>
      (case qs_values_fields qs of None \<Rightarrow> True | Some fs \<Rightarrow> list_all no_qmark fs))"

text \<open>Every \<^verbatim>\<open>range\<close> filter has a value of exactly two elements.\<close>

definition range_pairs :: "queryset \<Rightarrow> bool" where
  "range_pairs qs =
     list_all (\<lambda>(f, operator, v). operator = ''range'' \<longrightarrow> py_len v = Inr 2) (qs_filters qs)"

text \<open>
  The condition and the parameters of an exclusion as the specification words them:
  \<^verbatim>\<open>in\<close> becomes NOT IN with one placeholder per element, \<^verbatim>\<open>isnull\<close> the flipped NULL
  test without placeholder, every other operator the comparison inside \<^verbatim>\<open>NOT (...)\<close>
  with one placeholder.
\<close>

definition elements :: "pyval \<Rightarrow> pyval list" where
  "elements v = (case py_iter v of Inr xs \<Rightarrow> xs | Inl e \<Rightarrow> [])"

definition negated_condition :: "lookup \<Rightarrow> string" where
  "negated_condition t =
     (case t of (f, operator, v) \<Rightarrow>
        if operator = ''in''
          then f @ '' NOT IN ('' @ str_join '','' (replicate (length (elements v)) ''?'') @ '')''
        else if operator = ''isnull''
          then (if truthy v then f @ '' IS NOT NULL'' else f @ '' IS NULL'')
        else ''NOT ('' @ f @ '' '' @ get_operator_sql operator @ '' ?)'')"

definition negated_params :: "lookup \<Rightarrow> pyval list" where
  "negated_params t =
     (case t of (f, operator, v) \<Rightarrow>
        if operator = ''in'' then elements v
        else if operator = ''isnull'' then []
        else [format_value_for_operator v operator])"

text \<open>The cells of the store after \<^verbatim>\<open>_clone\<close> of the object \<open>self\<close>: the four lists of
  \<^verbatim>\<open>__init__\<close>, the four copies and the new object, at the next nine addresses.\<close>

definition clone_cells :: "store \<Rightarrow> qs_obj \<Rightarrow> addr \<Rightarrow> obj option" where
  "clone_cells s self =
     (let n = next_addr s in
      (cells s)(n \<mapsto> Lookups [], n + 1 \<mapsto> Lookups [], n + 2 \<mapsto> Names [], n + 3 \<mapsto> Names [],
        n + 5 \<mapsto> Lookups (lookups_at s (o_filters self)),
        n + 6 \<mapsto> Lookups (lookups_at s (o_excludes self)),
        n + 7 \<mapsto> Names (names_at s (o_order_by self)),
        n + 8 \<mapsto> Names (names_at s (o_select_related self)),
        n + 4 \<mapsto> Builder \<lparr>o_model = o_model self, o_filters = n + 5, o_excludes = n + 6,
           o_order_by = n + 7, o_limit = o_limit self, o_offset = o_offset self,
           o_select_related = n + 8, o_distinct = o_distinct self,
           o_values_fields = o_values_fields self, o_cache = None\<rparr>))"

text \<open>
  What a chaining call on the receiver \<open>a\<close>, whose state is \<open>v\<close>, has to give for the
  result to be the state \<open>v'\<close>: a new object, distinct from the receiver, that stands for
  \<open>v'\<close> and has an empty cache, in a store where the receiver still stands for \<open>v\<close>.
\<close>

definition chain_result ::
  "store \<Rightarrow> addr \<Rightarrow> queryset \<Rightarrow> (addr \<times> store) option \<Rightarrow> queryset \<Rightarrow> bool" where
  "chain_result s a v r v' =
     (case r of
        None \<Rightarrow> False
      | Some (q, s') \<Rightarrow>
          q \<noteq> a \<and> view s' a = Some v \<and> allocated s' a \<and>
          view s' q = Some v' \<and> allocated s' q \<and> qs_cache v' = None)"

text \<open>The statements the operations of the files of a directory send when applied.\<close>

definition operation_statements :: "migrations_dir \<Rightarrow> string list" where
  "operation_statements dir =
     concat (map (\<lambda>(f, content). case content of Inl e \<Rightarrow> [] | Inr ops \<Rightarrow> map apply_sql ops) dir)"

text \<open>
  What the migration manager relies on in the engine, the ledger table \<^verbatim>\<open>_migrations\<close>
  being read off a database state as the list of recorded names, or nothing when there is
  no such table: creating the table, when it succeeds, keeps an existing ledger and starts
  an empty one otherwise, and succeeds when the ledger exists; the query for the applied
  names succeeds on an existing ledger, returns its names in the first column and keeps
  it; an insert that succeeds appends the name; a commit leaves the ledger as it is.
\<close>

definition ledger_engine :: "'db engine \<Rightarrow> ('db \<Rightarrow> string list option) \<Rightarrow> bool" where
  "ledger_engine eng led =
     ((\<forall>d cur d'. run eng create_migrations_sql [] d = (Some cur, d') \<longrightarrow>
          led d' = Some (case led d of None \<Rightarrow> [] | Some l \<Rightarrow> l)) \<and>
      (\<forall>d l. led d = Some l \<longrightarrow> (\<exists>cur d'. run eng create_migrations_sql [] d = (Some cur, d'))) \<and>
      (\<forall>d l. led d = Some l \<longrightarrow>
          (\<exists>cur d'. run eng select_applied_sql [] d = (Some cur, d') \<and>
             first_columns (cur_rows cur) = Inr (map PStr l) \<and> led d' = Some l)) \<and>
      (\<forall>d l n cur d'. led d = Some l \<longrightarrow> run eng insert_applied_sql [PStr n] d = (Some cur, d') \<longrightarrow>
          led d' = Some (l @ [n])) \<and>
      (\<forall>d. led (commit_db eng d) = led d))"

text \<open>
  A condition on the migration files, not on the engine: no statement that the operations
  of the directory send changes the ledger when it succeeds. A migration that drops or
  re-creates \<^verbatim>\<open>_migrations\<close> does not meet it.
\<close>

definition ledger_untouched ::
  "'db engine \<Rightarrow> ('db \<Rightarrow> string list option) \<Rightarrow> migrations_dir \<Rightarrow> bool" where
  "ledger_untouched eng led dir =
     (\<forall>sql \<in> set (operation_statements dir). \<forall>d cur d'.
          run eng sql [] d = (Some cur, d') \<longrightarrow> led d' = led d)"

subsection \<open>Example data\<close>

definition users_model :: model where
  "users_model = \<lparr>table_name = ''users'', model_name = ''User'', model_fields = []\<rparr>"

definition example_chain :: queryset where
  "example_chain =
     exclude
       (filter_qs (new_queryset users_model)
          [(''age__range'', PTuple [PInt 18, PInt 65]), (''name__contains'', PStr ''an''),
           (''id__in'', PList [PInt 1, PInt 2, PInt 3])])
       [(''status'', PStr ''banned''), (''email__isnull'', PBool True)]"

definition example_exclusions :: queryset where
  "example_exclusions =
     exclude (filter_qs (new_queryset users_model) [(''age__gte'', PInt 18)])
       [(''id__in'', PList [PInt 4, PInt 5]), (''email__isnull'', PBool False),
        (''name__startswith'', PStr ''A'')]"

text \<open>
  An example engine for the table \<^verbatim>\<open>users\<close>: the database state is the list of its rows,
  and the engine answers the statements below as SQLite does on that table and refuses
  every other statement.
\<close>

definition rows_with_id :: "pyval \<Rightarrow> row list \<Rightarrow> row list" where
  "rows_with_id v rows = filter (\<lambda>r. map_of r ''id'' = Some v) rows"

definition users_engine :: "row list engine" where
  "users_engine =
     \<lparr>run = (\<lambda>sql params rows.
        if sql = ''SELECT * FROM users'' then
          (Some \<lparr>cur_rows = rows, cur_rowcount = - 1\<rparr>, rows)
        else if sql = ''SELECT * FROM users LIMIT 1'' then
          (Some \<lparr>cur_rows = take 1 rows, cur_rowcount = - 1\<rparr>, rows)
        else if sql = ''SELECT COUNT(*) FROM users'' then
          (Some \<lparr>cur_rows = [[(''COUNT(*)'', PInt (int (length rows)))]], cur_rowcount = - 1\<rparr>, rows)
        else if sql = ''SELECT * FROM users WHERE id = ?'' \<and> length params = 1 then
          (Some \<lparr>cur_rows = rows_with_id (hd params) rows, cur_rowcount = - 1\<rparr>, rows)
        else if sql = ''DELETE FROM users WHERE id = ?'' \<and> length params = 1 then
          (Some \<lparr>cur_rows = [], cur_rowcount = int (length (rows_with_id (hd params) rows))\<rparr>,
           filter (\<lambda>r. map_of r ''id'' \<noteq> Some (hd params)) rows)
        else (None, rows)),
      commit_db = (\<lambda>rows. rows)\<rparr>"

definition three_users :: "row list connection" where
  "three_users =
     \<lparr>conn_db = [[(''id'', PInt 1), (''name'', PStr ''Alice'')],
                 [(''id'', PInt 2), (''name'', PStr ''Bob'')],
                 [(''id'', PInt 3), (''name'', PStr ''Charlie'')]],
      conn_issued = []\<rparr>"

definition users_with_fields :: model where
  "users_with_fields =
     \<lparr>table_name = ''users'', model_name = ''User'',
      model_fields = [\<lparr>field_name = ''id'', db_column = ''id'', to_python = Inr\<rparr>,
                      \<lparr>field_name = ''name'', db_column = ''name'', to_python = Inr\<rparr>]\<rparr>"

text \<open>A store with one builder for \<^verbatim>\<open>users\<close>, at address 4, whose cache is populated.\<close>

definition example_store :: store where
  "example_store =
     update_builder (snd (new_builder \<lparr>cells = (\<lambda>a. None), next_addr = 0\<rparr> users_model)) 4
       (\<lambda>b. b\<lparr>o_cache := Some [[(''id'', PInt 1)]]\<rparr>)"

definition cached_users :: queryset where
  "cached_users = (new_queryset users_model)\<lparr>qs_cache := Some [[(''id'', PInt 1)]]\<rparr>"

text \<open>
  An example engine that keeps the ledger only: the database state is the ledger, or
  nothing when there is no table \<^verbatim>\<open>_migrations\<close>. An insert of a recorded name is refused as
  the UNIQUE constraint does; dropping \<^verbatim>\<open>_migrations\<close> removes the ledger and creating it
  anew, taken to be with the columns of the ledger, starts an empty one, as in SQLite;
  every other statement succeeds without effect on the ledger. An example directory of two
  migrations and two files that are not migrations.
\<close>

definition empty_cursor :: cursor where
  "empty_cursor = \<lparr>cur_rows = [], cur_rowcount = - 1\<rparr>"

definition ledger_db_engine :: "string list option engine" where
  "ledger_db_engine =
     \<lparr>run = (\<lambda>sql params d.
        if sql = create_migrations_sql then
          (Some empty_cursor, Some (case d of None \<Rightarrow> [] | Some l \<Rightarrow> l))
        else if sql = select_applied_sql then
          (case d of
             None \<Rightarrow> (None, d)
           | Some l \<Rightarrow> (Some \<lparr>cur_rows = map (\<lambda>n. [(''name'', PStr n)]) l, cur_rowcount = - 1\<rparr>, d))
        else if sql = insert_applied_sql then
          (case (d, params) of
             (Some l, [PStr n]) \<Rightarrow>
               if n \<in> set l then (None, d)
               else (Some \<lparr>cur_rows = [], cur_rowcount = 1\<rparr>, Some (l @ [n]))
           | _ \<Rightarrow> (None, d))
        else if sql = ''DROP TABLE IF EXISTS _migrations'' then (Some empty_cursor, None)
        else if startswith sql ''CREATE TABLE IF NOT EXISTS _migrations ('' then
          (Some empty_cursor, Some (case d of None \<Rightarrow> [] | Some l \<Rightarrow> l))
        else (Some empty_cursor, d)),
      commit_db = (\<lambda>d. d)\<rparr>"

definition example_migrations :: migrations_dir where
  "example_migrations =
     [(''0002_add_age.py'', Inr [AddColumn ''users'' ''age'' ''INTEGER'']),
      (''__init__.py'', Inr []),
      (''0001_init.py'', Inr [CreateTable ''users'' [(''id'', ''INTEGER PRIMARY KEY''), (''name'', ''VARCHAR(100)'')]]),
      (''README.md'', Inr [])]"

definition fresh_db :: "string list option connection" where
  "fresh_db = \<lparr>conn_db = None, conn_issued = []\<rparr>"

definition migrated_db :: "string list option connection" where
  "migrated_db =
     \<lparr>conn_db = Some [''0001_init'', ''0002_add_age''],
      conn_issued =
        [(create_migrations_sql, []),
         (select_applied_sql, []),
         (''CREATE TABLE IF NOT EXISTS users (id INTEGER PRIMARY KEY, name VARCHAR(100))'', []),
         (insert_applied_sql, [PStr ''0001_init'']),
         (''ALTER TABLE users ADD COLUMN age INTEGER'', []),
         (insert_applied_sql, [PStr ''0002_add_age''])]\<rparr>"

text \<open>
  A directory whose second migration resets the ledger: it drops \<^verbatim>\<open>_migrations\<close> and
  creates it again with the columns \<^verbatim>\<open>create_migrations_table\<close> gives it. The connection
  after one run of \<^verbatim>\<open>migrate\<close> on a fresh database, and after the run that follows.
\<close>

definition ledger_columns :: "(string \<times> string) list" where
  "ledger_columns =
     [(''id'', ''INTEGER PRIMARY KEY AUTOINCREMENT''), (''name'', ''VARCHAR(255) UNIQUE NOT NULL''),
      (''applied_at'', ''TIMESTAMP DEFAULT CURRENT_TIMESTAMP'')]"

definition resetting_migrations :: migrations_dir where
  "resetting_migrations =
     [(''0001_init.py'', Inr [CreateTable ''users'' [(''id'', ''INTEGER PRIMARY KEY'')]]),
      (''0002_reset.py'', Inr [DropTable ''_migrations'', CreateTable ''_migrations'' ledger_columns])]"

definition reset_db :: "string list option connection" where
  "reset_db =
     \<lparr>conn_db = Some [''0002_reset''],
      conn_issued =
        [(create_migrations_sql, []),
         (select_applied_sql, []),
         (''CREATE TABLE IF NOT EXISTS users (id INTEGER PRIMARY KEY)'', []),
         (insert_applied_sql, [PStr ''0001_init'']),
         (''DROP TABLE IF EXISTS _migrations'', []),
         (''CREATE TABLE IF NOT EXISTS _migrations (id INTEGER PRIMARY KEY AUTOINCREMENT, name VARCHAR(255) UNIQUE NOT NULL, applied_at TIMESTAMP DEFAULT CURRENT_TIMESTAMP)'', []),
         (insert_applied_sql, [PStr ''0002_reset''])]\<rparr>"

definition reapplied_db :: "string list option connection" where
  "reapplied_db =
     \<lparr>conn_db = Some [''0002_reset'', ''0001_init''],
      conn_issued =
        conn_issued reset_db @
        [(create_migrations_sql, []),
         (select_applied_sql, []),
         (''CREATE TABLE IF NOT EXISTS users (id INTEGER PRIMARY KEY)'', []),
         (insert_applied_sql, [PStr ''0001_init''])]\<rparr>"

section \<open>Properties of SQL synthesis\<close>

subsection \<open>Counting placeholders\<close>

lemma placeholders_append [simp]: "placeholders (a @ b) = placeholders a + placeholders b"
  by (simp add: placeholders_def)

lemma placeholders_Nil [simp]: "placeholders [] = 0"
  by (simp add: placeholders_def)

lemma placeholders_Cons [simp]: "placeholders (c # s) = (if c = CHR ''?'' then 1 else 0) + placeholders s"
  by (simp add: placeholders_def)

lemma placeholders_no_qmark [simp]: "no_qmark s \<Longrightarrow> placeholders s = 0"
  by (simp add: placeholders_def no_qmark_def)

lemma placeholders_join:
  "placeholders (str_join sep xs) = sum_list (map placeholders xs) + (length xs - 1) * placeholders sep"
  by (induction sep xs rule: str_join.induct) simp_all

lemma placeholders_marks: "placeholders (str_join '','' (replicate n ''?'')) = n"
  by (simp add: placeholders_join sum_list_replicate o_def)

lemma no_qmark_operator: "no_qmark (get_operator_sql operator)"
  by (simp add: get_operator_sql_def operators_def no_qmark_def)

lemma py_iter_len: "py_iter v = Inr xs \<Longrightarrow> py_len v = Inr n \<Longrightarrow> length xs = n"
  by (cases v) auto

lemma digit_char_no_qmark: "CHR ''?'' \<noteq> digit_char d"
  by (simp add: digit_char_def)

lemma no_qmark_nat_str: "no_qmark (nat_str n)"
proof (induction n rule: nat_str.induct)
  case (1 n)
  then show ?case
    by (subst nat_str.simps) (simp add: no_qmark_def digit_char_no_qmark)
qed

lemma no_qmark_int_str: "no_qmark (int_str i)"
  using no_qmark_nat_str by (simp add: int_str_def no_qmark_def)

lemma filter_condition_placeholders:
  assumes "filter_condition (f, operator, v) = Inr (c, ps)" and "no_qmark f"
    and "operator = ''range'' \<longrightarrow> py_len v = Inr 2"
  shows "placeholders c = length ps"
  using assms no_qmark_operator [of operator]
  by (auto simp: filter_condition_def Let_def placeholders_marks py_iter_len
           split: if_splits sum.splits)

lemma exclude_condition_placeholders:
  assumes "exclude_condition (f, operator, v) = Inr (c, ps)" and "no_qmark f"
  shows "placeholders c = length ps"
  using assms no_qmark_operator [of operator]
  by (auto simp: exclude_condition_def Let_def placeholders_marks py_iter_len
           split: if_splits sum.splits)


lemma no_qmark_order_part: "no_qmark f \<Longrightarrow> no_qmark (order_part f)"
  by (auto simp: order_part_def no_qmark_def split: list.splits)

lemma filters_loop_Inr:
  "filters_loop ts cs ps = Inr (cs', ps') \<Longrightarrow>
   \<exists>rs. map filter_condition ts = map Inr rs \<and> cs' = cs @ map fst rs \<and> ps' = ps @ concat (map snd rs)"
proof (induction ts arbitrary: cs ps)
  case Nil
  then show ?case by simp
next
  case (Cons t ts)
  from Cons.prems obtain c p where t: "filter_condition t = Inr (c, p)"
    and rest: "filters_loop ts (cs @ [c]) (ps @ p) = Inr (cs', ps')"
    by (auto split: sum.splits)
  from Cons.IH [OF rest] obtain rs where rs: "map filter_condition ts = map Inr rs"
    "cs' = (cs @ [c]) @ map fst rs" "ps' = (ps @ p) @ concat (map snd rs)" by blast
  show ?case
    by (rule exI [of _ "(c, p) # rs"]) (simp add: t rs)
qed

lemma excludes_loop_Inr:
  "excludes_loop ts cs ps = Inr (cs', ps') \<Longrightarrow>
   \<exists>rs. map exclude_condition ts = map Inr rs \<and> cs' = cs @ map fst rs \<and> ps' = ps @ concat (map snd rs)"
proof (induction ts arbitrary: cs ps)
  case Nil
  then show ?case by simp
next
  case (Cons t ts)
  from Cons.prems obtain c p where t: "exclude_condition t = Inr (c, p)"
    and rest: "excludes_loop ts (cs @ [c]) (ps @ p) = Inr (cs', ps')"
    by (auto split: sum.splits)
  from Cons.IH [OF rest] obtain rs where rs: "map exclude_condition ts = map Inr rs"
    "cs' = (cs @ [c]) @ map fst rs" "ps' = (ps @ p) @ concat (map snd rs)" by blast
  show ?case
    by (rule exI [of _ "(c, p) # rs"]) (simp add: t rs)
qed

lemma build_conditions_Inr:
  assumes "build_conditions qs = Inr (cs, ps)"
  shows "\<exists>fr er. map filter_condition (qs_filters qs) = map Inr fr \<and>
                 map exclude_condition (qs_excludes qs) = map Inr er \<and>
                 cs = map fst fr @ map fst er \<and> ps = concat (map snd fr) @ concat (map snd er)"
proof -
  from assms obtain c1 p1 where f: "filters_loop (qs_filters qs) [] [] = Inr (c1, p1)"
    and e: "excludes_loop (qs_excludes qs) c1 p1 = Inr (cs, ps)"
    by (auto simp: build_conditions_def split: sum.splits)
  from filters_loop_Inr [OF f] obtain fr where fr: "map filter_condition (qs_filters qs) = map Inr fr"
    "c1 = map fst fr" "p1 = concat (map snd fr)" by auto
  from excludes_loop_Inr [OF e] obtain er where er: "map exclude_condition (qs_excludes qs) = map Inr er"
    "cs = c1 @ map fst er" "ps = p1 @ concat (map snd er)" by auto
  show ?thesis using fr er by blast
qed


lemma aligned_sum: "aligned rs \<Longrightarrow> sum_list (map placeholders (map fst rs)) = length (concat (map snd rs))"
  by (induction rs) (auto simp: aligned_def)



lemma filters_aligned:
  assumes "map filter_condition ts = map Inr rs" "list_all (\<lambda>t. no_qmark (fst t)) ts"
    "list_all (\<lambda>(f, operator, v). operator = ''range'' \<longrightarrow> py_len v = Inr 2) ts"
  shows "aligned rs"
  using assms
proof (induction ts arbitrary: rs)
  case Nil
  then show ?case by (simp add: aligned_def)
next
  case (Cons t ts)
  obtain f operator v where t: "t = (f, operator, v)" by (cases t) auto
  from Cons.prems(1) obtain r rs' where rs: "rs = r # rs'" "filter_condition t = Inr r"
    "map filter_condition ts = map Inr rs'" by (cases rs) auto
  obtain c ps where r: "r = (c, ps)" by (cases r) auto
  have "placeholders c = length ps"
    using filter_condition_placeholders [of f operator v c ps] rs(2) Cons.prems(2,3)
    by (simp add: t r)
  moreover have "aligned rs'" using Cons.IH [OF rs(3)] Cons.prems(2,3) by simp
  ultimately show ?case by (simp add: rs r aligned_def)
qed

lemma excludes_aligned:
  assumes "map exclude_condition ts = map Inr rs" "list_all (\<lambda>t. no_qmark (fst t)) ts"
  shows "aligned rs"
  using assms
proof (induction ts arbitrary: rs)
  case Nil
  then show ?case by (simp add: aligned_def)
next
  case (Cons t ts)
  obtain f operator v where t: "t = (f, operator, v)" by (cases t) auto
  from Cons.prems(1) obtain r rs' where rs: "rs = r # rs'" "exclude_condition t = Inr r"
    "map exclude_condition ts = map Inr rs'" by (cases rs) auto
  obtain c ps where r: "r = (c, ps)" by (cases r) auto
  have "placeholders c = length ps"
    using exclude_condition_placeholders [of f operator v c ps] rs(2) Cons.prems(2)
    by (simp add: t r)
  moreover have "aligned rs'" using Cons.IH [OF rs(3)] Cons.prems(2) by simp
  ultimately show ?case by (simp add: rs r aligned_def)
qed

lemma placeholders_select: "plain_identifiers qs \<Longrightarrow> placeholders (select_clause qs) = 0"
  by (auto simp: plain_identifiers_def select_clause_def Let_def placeholders_join list_all_iff
           sum_list_eq_0_iff split: option.splits)

lemma placeholders_order: "plain_identifiers qs \<Longrightarrow> placeholders (order_clause qs) = 0"
  by (auto simp: plain_identifiers_def order_clause_def placeholders_join list_all_iff
           no_qmark_order_part)

lemma placeholders_paging: "placeholders (paging_clause qs) = 0"
  by (simp add: paging_clause_def no_qmark_int_str split: option.splits)

lemma placeholders_where:
  "placeholders (if cs \<noteq> [] then '' WHERE '' @ str_join '' AND '' cs else []) = sum_list (map placeholders cs)"
  by (simp add: placeholders_join)

text \<open>
  Claim C1, as the code has it. When the statement is built, no name copied into it has a
  question mark and every \<^verbatim>\<open>range\<close> filter has a value of two elements, then the statement
  has exactly as many placeholders as there are parameters; the parameters are those of
  the filters in declaration order followed by those of the exclusions in declaration
  order, and each condition has as many placeholders as the parameters it contributed.
\<close>

theorem build_sql_placeholders:
  assumes "build_sql qs = Inr (sql, params)" and "plain_identifiers qs" and "range_pairs qs"
  shows "placeholders sql = length params \<and>
         (\<exists>fr er. map filter_condition (qs_filters qs) = map Inr fr \<and>
                   map exclude_condition (qs_excludes qs) = map Inr er \<and>
                   build_conditions qs = Inr (map fst fr @ map fst er, params) \<and>
                   params = concat (map snd fr) @ concat (map snd er) \<and>
                   aligned (fr @ er))"
proof -
  from assms(1) obtain cs where bc: "build_conditions qs = Inr (cs, params)"
    and sql: "sql = select_clause qs @ (if cs \<noteq> [] then '' WHERE '' @ str_join '' AND '' cs else [])
                @ order_clause qs @ paging_clause qs"
    by (auto simp: build_sql_def build_where_clause_def split: sum.splits if_splits)
  from build_conditions_Inr [OF bc] obtain fr er where
    fr: "map filter_condition (qs_filters qs) = map Inr fr" and
    er: "map exclude_condition (qs_excludes qs) = map Inr er" and
    cs: "cs = map fst fr @ map fst er" and ps: "params = concat (map snd fr) @ concat (map snd er)"
    by blast
  have ids: "list_all (\<lambda>t. no_qmark (fst t)) (qs_filters qs)" "list_all (\<lambda>t. no_qmark (fst t)) (qs_excludes qs)"
    using assms(2) by (simp_all add: plain_identifiers_def)
  have afr: "aligned fr" using filters_aligned [OF fr ids(1)] assms(3) by (simp add: range_pairs_def)
  have aer: "aligned er" by (rule excludes_aligned [OF er ids(2)])
  have al: "aligned (fr @ er)" using afr aer by (simp add: aligned_def)
  have "sum_list (map placeholders cs) = length params"
    using aligned_sum [OF al] by (simp add: cs ps)
  then have "placeholders sql = length params"
    unfolding sql
    by (simp only: placeholders_append placeholders_where placeholders_select [OF assms(2)]
          placeholders_order [OF assms(2)] placeholders_paging)
  with fr er bc cs ps al show ?thesis by blast
qed







theorem build_sql_placeholders_witness:
  "build_sql example_chain =
     Inr (''SELECT * FROM users WHERE age BETWEEN ? AND ? AND name LIKE ? AND id IN (?,?,?) AND NOT (status = ?) AND email IS NOT NULL'',
          [PInt 18, PInt 65, PStr ''%an%'', PInt 1, PInt 2, PInt 3, PStr ''banned'']) \<and>
   plain_identifiers example_chain \<and> range_pairs example_chain \<and>
   placeholders ''SELECT * FROM users WHERE age BETWEEN ? AND ? AND name LIKE ? AND id IN (?,?,?) AND NOT (status = ?) AND email IS NOT NULL''
     = length [PInt 18, PInt 65, PStr ''%an%'', PInt 1, PInt 2, PInt 3, PStr ''banned'']"
proof -
  have h1: "build_sql example_chain =
     Inr (''SELECT * FROM users WHERE age BETWEEN ? AND ? AND name LIKE ? AND id IN (?,?,?) AND NOT (status = ?) AND email IS NOT NULL'',
          [PInt 18, PInt 65, PStr ''%an%'', PInt 1, PInt 2, PInt 3, PStr ''banned''])"
    by code_simp
  have h2: "plain_identifiers example_chain" by code_simp
  have h3: "range_pairs example_chain" by code_simp
  show ?thesis using build_sql_placeholders [OF h1 h2 h3] h1 h2 h3 by blast
qed

text \<open>
  The claim as stated fails: a \<^verbatim>\<open>range\<close> filter whose value has three elements gives two
  placeholders and three parameters, and a lookup field with a question mark in its name
  gives two question marks and one parameter.
\<close>

theorem build_sql_placeholders_counterexample:
  "build_sql (filter_qs (new_queryset users_model)
                [(''age__range'', PList [PInt 1, PInt 2, PInt 3])])
     = Inr (''SELECT * FROM users WHERE age BETWEEN ? AND ?'', [PInt 1, PInt 2, PInt 3]) \<and>
   placeholders ''SELECT * FROM users WHERE age BETWEEN ? AND ?''
     \<noteq> length [PInt 1, PInt 2, PInt 3] \<and>
   build_sql (filter_qs (new_queryset users_model) [(''a?'', PInt 1)])
     = Inr (''SELECT * FROM users WHERE a? = ?'', [PInt 1]) \<and>
   placeholders ''SELECT * FROM users WHERE a? = ?'' \<noteq> length [PInt 1]"
  by code_simp

subsection \<open>Exclusions\<close>

lemma get_operator_sql_in: "get_operator_sql ''in'' = ''IN''"
  by (simp add: get_operator_sql_def operators_def)

lemma exclude_condition_negated:
  assumes "exclude_condition t = Inr r"
  shows "r = (negated_condition t, negated_params t)"
proof -
  obtain f operator v where t: "t = (f, operator, v)" by (cases t) auto
  show ?thesis
    using assms
    by (auto simp: t exclude_condition_def negated_condition_def negated_params_def elements_def
          get_operator_sql_in Let_def py_iter_len split: if_splits sum.splits)
qed

lemma excludes_negated:
  "map exclude_condition ts = map Inr er \<Longrightarrow> er = map (\<lambda>t. (negated_condition t, negated_params t)) ts"
proof (induction ts arbitrary: er)
  case Nil
  then show ?case by simp
next
  case (Cons t ts)
  then obtain r er' where er: "er = r # er'" "exclude_condition t = Inr r"
    "map exclude_condition ts = map Inr er'" by (cases er) auto
  show ?case using exclude_condition_negated [OF er(2)] Cons.IH [OF er(3)] by (simp add: er(1))
qed

lemma negated_placeholders:
  "no_qmark (fst t) \<Longrightarrow> placeholders (negated_condition t) = length (negated_params t)"
  using no_qmark_operator [of "fst (snd t)"]
  by (cases t) (auto simp: negated_condition_def negated_params_def placeholders_marks)

text \<open>
  Claim C4. In the WHERE clause that is built, the conditions of the exclusions follow those
  of the filters and are the ones the specification words: NOT IN with one placeholder per
  element for \<^verbatim>\<open>in\<close>, the flipped NULL test without placeholder for \<^verbatim>\<open>isnull\<close>, and
  \<^verbatim>\<open>NOT (field op ?)\<close> with one placeholder for every other operator; the parameters of the
  exclusions are the elements, nothing, and the one formatted value.
\<close>

theorem exclusion_asymmetry:
  assumes "build_where_clause qs = Inr (w, params)"
  shows "\<exists>fr. map filter_condition (qs_filters qs) = map Inr fr \<and>
              w = (let conditions = map fst fr @ map negated_condition (qs_excludes qs)
                   in if conditions \<noteq> [] then '' WHERE '' @ str_join '' AND '' conditions else []) \<and>
              params = concat (map snd fr) @ concat (map negated_params (qs_excludes qs)) \<and>
              list_all (\<lambda>t. no_qmark (fst t) \<longrightarrow>
                           placeholders (negated_condition t) = length (negated_params t))
                (qs_excludes qs)"
proof -
  from assms obtain cs where bc: "build_conditions qs = Inr (cs, params)"
    and w: "w = (if cs \<noteq> [] then '' WHERE '' @ str_join '' AND '' cs else [])"
    by (auto simp: build_where_clause_def split: sum.splits if_splits)
  from build_conditions_Inr [OF bc] obtain fr er where
    fr: "map filter_condition (qs_filters qs) = map Inr fr" and
    er: "map exclude_condition (qs_excludes qs) = map Inr er" and
    cs: "cs = map fst fr @ map fst er" and ps: "params = concat (map snd fr) @ concat (map snd er)"
    by blast
  note e = excludes_negated [OF er]
  have "cs = map fst fr @ map negated_condition (qs_excludes qs)"
    by (simp add: cs e o_def)
  moreover have "params = concat (map snd fr) @ concat (map negated_params (qs_excludes qs))"
    by (simp add: ps e o_def)
  moreover have "list_all (\<lambda>t. no_qmark (fst t) \<longrightarrow>
                           placeholders (negated_condition t) = length (negated_params t))
                (qs_excludes qs)"
    by (simp add: list_all_iff negated_placeholders)
  ultimately show ?thesis using fr w by (auto simp: Let_def)
qed

theorem exclusion_asymmetry_witness:
  "build_where_clause example_exclusions =
     Inr ('' WHERE age >= ? AND id NOT IN (?,?) AND email IS NULL AND NOT (name LIKE ?)'',
          [PInt 18, PInt 4, PInt 5, PStr ''A%'']) \<and>
   (\<exists>fr. map filter_condition (qs_filters example_exclusions) = map Inr fr \<and>
      '' WHERE age >= ? AND id NOT IN (?,?) AND email IS NULL AND NOT (name LIKE ?)'' =
         (let conditions = map fst fr @ map negated_condition (qs_excludes example_exclusions)
          in if conditions \<noteq> [] then '' WHERE '' @ str_join '' AND '' conditions else []) \<and>
      [PInt 18, PInt 4, PInt 5, PStr ''A%''] =
         concat (map snd fr) @ concat (map negated_params (qs_excludes example_exclusions)) \<and>
      list_all (\<lambda>t. no_qmark (fst t) \<longrightarrow>
                   placeholders (negated_condition t) = length (negated_params t))
        (qs_excludes example_exclusions)) \<and>
   map negated_condition (qs_excludes example_exclusions) =
     [''id NOT IN (?,?)'', ''email IS NULL'', ''NOT (name LIKE ?)'']"
proof -
  have h: "build_where_clause example_exclusions =
     Inr ('' WHERE age >= ? AND id NOT IN (?,?) AND email IS NULL AND NOT (name LIKE ?)'',
          [PInt 18, PInt 4, PInt 5, PStr ''A%''])"
    by code_simp
  have n: "map negated_condition (qs_excludes example_exclusions) =
     [''id NOT IN (?,?)'', ''email IS NULL'', ''NOT (name LIKE ?)'']"
    by code_simp
  show ?thesis using exclusion_asymmetry [OF h] h n by blast
qed

section \<open>Properties of the migration operations\<close>

text \<open>
  Claim C8. On every connection, reversing a DropTable or an AddColumn operation fails with
  MigrationError and leaves the connection as it was: no statement is issued and the
  database state is the same. So does reversing a migration whose last operation, the
  first to be reversed, is one of the two.
\<close>

theorem reverse_one_way:
  "reverse_op eng (DropTable t) c = (Inl MigrationError, c) \<and>
   reverse_op eng (AddColumn t col d) c = (Inl MigrationError, c) \<and>
   migration_reverse eng (ops @ [DropTable t]) c = (Inl MigrationError, c) \<and>
   migration_reverse eng (ops @ [AddColumn t col d]) c = (Inl MigrationError, c)"
  by (simp add: migration_reverse_def)

section \<open>Properties of the terminal operations\<close>

lemma execute_issued:
  "execute eng sql params c = (r, c') \<Longrightarrow> conn_issued c' = conn_issued c @ [(sql, params)]"
  by (auto simp: execute_def split: prod.splits)

lemma commit_issued: "conn_issued (commit eng c) = conn_issued c"
  by (simp add: commit_def)

lemma build_where_clause_empty:
  "qs_filters qs = [] \<Longrightarrow> qs_excludes qs = [] \<Longrightarrow> build_where_clause qs = Inr ([], [])"
  by (simp add: build_where_clause_def build_conditions_def)

lemma build_conditions_length:
  assumes "build_conditions qs = Inr (cs, ps)"
  shows "length cs = length (qs_filters qs) + length (qs_excludes qs)"
proof -
  from build_conditions_Inr [OF assms] obtain fr er where
    "map filter_condition (qs_filters qs) = map Inr fr"
    "map exclude_condition (qs_excludes qs) = map Inr er" "cs = map fst fr @ map fst er"
    by blast
  then show ?thesis by (metis length_append length_map)
qed

lemma build_where_clause_nonempty:
  assumes "build_where_clause qs = Inr (w, ps)" "qs_filters qs \<noteq> [] \<or> qs_excludes qs \<noteq> []"
  shows "w \<noteq> []"
proof -
  from assms(1) obtain cs where bc: "build_conditions qs = Inr (cs, ps)"
    and w: "w = (if cs \<noteq> [] then '' WHERE '' @ str_join '' AND '' cs else [])"
    by (auto simp: build_where_clause_def split: sum.splits if_splits)
  have "cs \<noteq> []" using build_conditions_length [OF bc] assms(2) by auto
  then show ?thesis by (simp add: w)
qed

text \<open>
  Claim C2. With no filter and no exclusion, \<^verbatim>\<open>delete\<close> fails with QueryError and the
  connection is left as it was: no statement is issued and the database state is the same.
  With a filter or an exclusion, and the WHERE clause built from them, \<^verbatim>\<open>delete\<close> sends
  exactly one statement, \<^verbatim>\<open>DELETE FROM\<close> the table followed by that WHERE clause, with the
  parameters of the clause, and returns the cursor's row count after a commit, or raises
  what the connection raised.
\<close>

theorem delete_guard:
  "(qs_filters qs = [] \<and> qs_excludes qs = [] \<longrightarrow> delete eng qs c = (Inl QueryError, c)) \<and>
   ((qs_filters qs \<noteq> [] \<or> qs_excludes qs \<noteq> []) \<and> build_where_clause qs = Inr (w, params) \<longrightarrow>
      delete eng qs c =
        (case execute eng (''DELETE FROM '' @ table_name (qs_model qs) @ w) params c of
           (Inl e, c') \<Rightarrow> (Inl e, c')
         | (Inr cur, c') \<Rightarrow> (Inr (cur_rowcount cur), commit eng c')) \<and>
      conn_issued (snd (delete eng qs c)) =
        conn_issued c @ [(''DELETE FROM '' @ table_name (qs_model qs) @ w, params)])"
proof -
  define sql where "sql = ''DELETE FROM '' @ table_name (qs_model qs) @ w"
  obtain r c' where e: "execute eng sql params c = (r, c')"
    by (cases "execute eng sql params c") auto
  have empty: "delete eng qs c = (Inl QueryError, c)" if "qs_filters qs = [] \<and> qs_excludes qs = []"
    using that by (simp add: delete_def build_where_clause_empty)
  have run: "delete eng qs c =
        (case execute eng sql params c of
           (Inl e, c') \<Rightarrow> (Inl e, c')
         | (Inr cur, c') \<Rightarrow> (Inr (cur_rowcount cur), commit eng c')) \<and>
      conn_issued (snd (delete eng qs c)) = conn_issued c @ [(sql, params)]"
    if a: "(qs_filters qs \<noteq> [] \<or> qs_excludes qs \<noteq> []) \<and> build_where_clause qs = Inr (w, params)"
  proof -
    have w: "w \<noteq> []" using a build_where_clause_nonempty by blast
    have d: "delete eng qs c =
        (case execute eng sql params c of
           (Inl e, c') \<Rightarrow> (Inl e, c')
         | (Inr cur, c') \<Rightarrow> (Inr (cur_rowcount cur), commit eng c'))"
      using a w by (simp add: delete_def sql_def)
    have "conn_issued (snd (delete eng qs c)) = conn_issued c @ [(sql, params)]"
      using execute_issued [OF e] by (cases r) (simp_all add: d e commit_issued)
    with d show ?thesis by simp
  qed
  show ?thesis using empty run unfolding sql_def by blast
qed


theorem delete_guard_witness:
  "(qs_filters (new_queryset users_model) = [] \<and> qs_excludes (new_queryset users_model) = []) \<and>
   delete users_engine (new_queryset users_model) three_users = (Inl QueryError, three_users) \<and>
   qs_filters (filter_qs (new_queryset users_model) [(''id'', PInt 2)]) \<noteq> [] \<and>
   build_where_clause (filter_qs (new_queryset users_model) [(''id'', PInt 2)])
     = Inr ('' WHERE id = ?'', [PInt 2]) \<and>
   conn_issued (snd (delete users_engine (filter_qs (new_queryset users_model) [(''id'', PInt 2)])
                       three_users))
     = [(''DELETE FROM users WHERE id = ?'', [PInt 2])]"
proof -
  have e: "qs_filters (new_queryset users_model) = [] \<and> qs_excludes (new_queryset users_model) = []"
    by code_simp
  have f: "qs_filters (filter_qs (new_queryset users_model) [(''id'', PInt 2)]) \<noteq> []"
    by code_simp
  have w: "build_where_clause (filter_qs (new_queryset users_model) [(''id'', PInt 2)])
     = Inr ('' WHERE id = ?'', [PInt 2])"
    by code_simp
  have t: "table_name (qs_model (filter_qs (new_queryset users_model) [(''id'', PInt 2)])) = ''users''"
    by code_simp
  have i: "conn_issued three_users = []" by code_simp
  have a: "delete users_engine (new_queryset users_model) three_users = (Inl QueryError, three_users)"
    using delete_guard [of "new_queryset users_model" users_engine three_users "[]" "[]"] e
    by blast
  have "conn_issued (snd (delete users_engine (filter_qs (new_queryset users_model) [(''id'', PInt 2)])
                       three_users))
     = conn_issued three_users @
       [(''DELETE FROM '' @ table_name (qs_model (filter_qs (new_queryset users_model) [(''id'', PInt 2)]))
           @ '' WHERE id = ?'', [PInt 2])]"
    using delete_guard [of "filter_qs (new_queryset users_model) [(''id'', PInt 2)]" users_engine
        three_users "'' WHERE id = ?''" "[PInt 2]"] f w
    by blast
  then have b: "conn_issued (snd (delete users_engine (filter_qs (new_queryset users_model) [(''id'', PInt 2)])
                       three_users))
     = [(''DELETE FROM users WHERE id = ?'', [PInt 2])]"
    by (simp add: t i)
  show ?thesis using a b e f w by blast
qed

lemma create_instances_length:
  "create_instances q rows = Inr insts \<Longrightarrow> length insts = length rows"
  by (induction rows arbitrary: insts) (auto split: sum.splits)

lemma create_instances_single:
  "create_instances q [r] = Inr insts \<Longrightarrow> create_instance q r = Inr (hd insts)"
  by (auto split: sum.splits)

lemma create_instance_cache: "create_instance (q\<lparr>qs_cache := ca\<rparr>) r = create_instance q r"
  by (simp add: create_instance_def)

lemma create_instances_cache: "create_instances (q\<lparr>qs_cache := ca\<rparr>) rows = create_instances q rows"
  by (induction rows) (auto simp: create_instance_cache split: sum.splits)

lemma clone_cache: "qs_cache (clone qs) = None"
  by (simp add: clone_def new_queryset_def)

lemma filter_qs_cache: "qs_cache (filter_qs qs kwargs) = None"
  by (simp add: filter_qs_def Let_def clone_cache)

lemma append_lookups_eq:
  "append_lookups acc kwargs =
     acc @ map (\<lambda>(l, v). (fst (parse_lookup l), snd (parse_lookup l), v)) kwargs"
  by (induction acc kwargs rule: append_lookups.induct) (auto split: prod.splits)

lemma all_qs_fresh:
  assumes "qs_cache q = None" "build_sql q = Inr (sql, params)"
    "execute eng sql params c = (Inr cur, c')"
  shows "all_qs eng q c = (create_instances q (cur_rows cur), q\<lparr>qs_cache := Some (cur_rows cur)\<rparr>, c')"
  using assms by (simp add: all_qs_def execute_qs_def create_instances_cache)

text \<open>
  Claim C3. \<^verbatim>\<open>get\<close> runs the receiver with the lookups appended to its filters. When the
  statement of that builder is built, the connection answers it and the rows are turned
  into instances, \<^verbatim>\<open>get\<close> fails with DoesNotExist for no row, with
  MultipleObjectsReturned for more than one row, and returns the instance of the row when
  there is exactly one.
\<close>

theorem get_exactly_one:
  assumes "build_sql (filter_qs qs kwargs) = Inr (sql, params)"
    and "execute eng sql params c = (Inr cur, c')"
    and "create_instances (filter_qs qs kwargs) (cur_rows cur) = Inr insts"
  shows "qs_filters (filter_qs qs kwargs) =
           qs_filters qs @ map (\<lambda>(l, v). (fst (parse_lookup l), snd (parse_lookup l), v)) kwargs \<and>
         conn_issued c' = conn_issued c @ [(sql, params)] \<and>
         (cur_rows cur = [] \<longrightarrow> get eng qs kwargs c = (Inl DoesNotExist, c')) \<and>
         (length (cur_rows cur) > 1 \<longrightarrow> get eng qs kwargs c = (Inl MultipleObjectsReturned, c')) \<and>
         (\<forall>r. cur_rows cur = [r] \<longrightarrow>
               (\<exists>i. create_instance (filter_qs qs kwargs) r = Inr i \<and>
                    get eng qs kwargs c = (Inr i, c')))"
proof -
  let ?q = "filter_qs qs kwargs"
  have a: "all_qs eng ?q c = (Inr insts, ?q\<lparr>qs_cache := Some (cur_rows cur)\<rparr>, c')"
    using all_qs_fresh [OF filter_qs_cache assms(1,2)] assms(3) by simp
  have len: "length insts = length (cur_rows cur)"
    by (rule create_instances_length [OF assms(3)])
  have g: "get eng qs kwargs c =
             (if length insts = 0 then (Inl DoesNotExist, c')
              else if length insts > 1 then (Inl MultipleObjectsReturned, c')
              else (Inr (hd insts), c'))"
    by (simp add: get_def Let_def a)
  have f: "qs_filters ?q =
           qs_filters qs @ map (\<lambda>(l, v). (fst (parse_lookup l), snd (parse_lookup l), v)) kwargs"
    by (simp add: filter_qs_def Let_def append_lookups_eq clone_def)
  have one: "\<exists>i. create_instance ?q r = Inr i \<and> get eng qs kwargs c = (Inr i, c')"
    if "cur_rows cur = [r]" for r
    using create_instances_single [of ?q r insts] assms(3) len that by (simp add: g)
  show ?thesis
    using f execute_issued [OF assms(2)] g len one by auto
qed



theorem get_exactly_one_witness:
  "get users_engine (new_queryset users_with_fields) [(''id'', PInt 999)] three_users =
     (Inl DoesNotExist,
      three_users\<lparr>conn_issued := [(''SELECT * FROM users WHERE id = ?'', [PInt 999])]\<rparr>) \<and>
   get users_engine (new_queryset users_with_fields) [] three_users =
     (Inl MultipleObjectsReturned, three_users\<lparr>conn_issued := [(''SELECT * FROM users'', [])]\<rparr>) \<and>
   get users_engine (new_queryset users_with_fields) [(''id'', PInt 2)] three_users =
     (Inr (ModelInstance [(''id'', PInt 2), (''name'', PStr ''Bob'')]),
      three_users\<lparr>conn_issued := [(''SELECT * FROM users WHERE id = ?'', [PInt 2])]\<rparr>)"
proof -
  let ?q = "new_queryset users_with_fields"
  have b0: "build_sql (filter_qs ?q [(''id'', PInt 999)]) =
              Inr (''SELECT * FROM users WHERE id = ?'', [PInt 999])"
    by code_simp
  have e0: "execute users_engine ''SELECT * FROM users WHERE id = ?'' [PInt 999] three_users =
              (Inr \<lparr>cur_rows = [], cur_rowcount = - 1\<rparr>,
               three_users\<lparr>conn_issued := [(''SELECT * FROM users WHERE id = ?'', [PInt 999])]\<rparr>)"
    by code_simp
  have i0: "create_instances (filter_qs ?q [(''id'', PInt 999)])
              (cur_rows \<lparr>cur_rows = [], cur_rowcount = - 1\<rparr>) = Inr []"
    by simp
  have r0: "cur_rows \<lparr>cur_rows = [], cur_rowcount = - 1\<rparr> = []" by simp
  note g0 = get_exactly_one [OF b0 e0 i0, THEN conjunct2, THEN conjunct2, THEN conjunct1, rule_format, OF r0]
  have b1: "build_sql (filter_qs ?q []) = Inr (''SELECT * FROM users'', [])"
    by code_simp
  have e1: "execute users_engine ''SELECT * FROM users'' [] three_users =
              (Inr \<lparr>cur_rows = conn_db three_users, cur_rowcount = - 1\<rparr>,
               three_users\<lparr>conn_issued := [(''SELECT * FROM users'', [])]\<rparr>)"
    by code_simp
  have i1: "create_instances (filter_qs ?q [])
              (cur_rows \<lparr>cur_rows = conn_db three_users, cur_rowcount = - 1\<rparr>) =
            Inr [ModelInstance [(''id'', PInt 1), (''name'', PStr ''Alice'')],
                 ModelInstance [(''id'', PInt 2), (''name'', PStr ''Bob'')],
                 ModelInstance [(''id'', PInt 3), (''name'', PStr ''Charlie'')]]"
    by code_simp
  have r1: "length (cur_rows \<lparr>cur_rows = conn_db three_users, cur_rowcount = - 1\<rparr>) > 1"
    by code_simp
  note g1 = get_exactly_one [OF b1 e1 i1, THEN conjunct2, THEN conjunct2, THEN conjunct2,
      THEN conjunct1, rule_format, OF r1]
  have b2: "build_sql (filter_qs ?q [(''id'', PInt 2)]) =
              Inr (''SELECT * FROM users WHERE id = ?'', [PInt 2])"
    by code_simp
  have e2: "execute users_engine ''SELECT * FROM users WHERE id = ?'' [PInt 2] three_users =
              (Inr \<lparr>cur_rows = [[(''id'', PInt 2), (''name'', PStr ''Bob'')]], cur_rowcount = - 1\<rparr>,
               three_users\<lparr>conn_issued := [(''SELECT * FROM users WHERE id = ?'', [PInt 2])]\<rparr>)"
    by code_simp
  have i2: "create_instances (filter_qs ?q [(''id'', PInt 2)])
              (cur_rows \<lparr>cur_rows = [[(''id'', PInt 2), (''name'', PStr ''Bob'')]], cur_rowcount = - 1\<rparr>) =
            Inr [ModelInstance [(''id'', PInt 2), (''name'', PStr ''Bob'')]]"
    by code_simp
  have r2: "cur_rows \<lparr>cur_rows = [[(''id'', PInt 2), (''name'', PStr ''Bob'')]], cur_rowcount = - 1\<rparr>
              = [[(''id'', PInt 2), (''name'', PStr ''Bob'')]]"
    by simp
  have c2: "create_instance (filter_qs ?q [(''id'', PInt 2)]) [(''id'', PInt 2), (''name'', PStr ''Bob'')]
              = Inr (ModelInstance [(''id'', PInt 2), (''name'', PStr ''Bob'')])"
    by code_simp
  have g2: "get users_engine ?q [(''id'', PInt 2)] three_users =
     (Inr (ModelInstance [(''id'', PInt 2), (''name'', PStr ''Bob'')]),
      three_users\<lparr>conn_issued := [(''SELECT * FROM users WHERE id = ?'', [PInt 2])]\<rparr>)"
    using get_exactly_one [OF b2 e2 i2] r2 c2 by auto
  show ?thesis using g0 g1 g2 by blast
qed

subsection \<open>first and last\<close>

lemma flip_field_dash: "flip_field (CHR ''-'' # x) = x"
  by (simp add: flip_field_def)

lemma order_by_twice: "order_by (order_by qs fs) gs = order_by qs gs"
  by (simp add: order_by_def clone_def new_queryset_def)

lemma qs_order_by_order_by: "qs_order_by (order_by qs fs) = fs"
  by (simp add: order_by_def)

text \<open>
  Claim C5. The builder \<^verbatim>\<open>last\<close> runs on a receiver ordered by \<^verbatim>\<open>-x\<close> alone is the builder
  \<^verbatim>\<open>first\<close> runs on the same receiver ordered by \<^verbatim>\<open>x\<close>: the same state, hence the same
  statement and parameters, and the two calls have the same outcome on every connection.
  \<^verbatim>\<open>last\<close> runs the receiver with every ordering name flipped, \<^verbatim>\<open>id\<close> standing in for an empty
  ordering, and limit 1; \<^verbatim>\<open>first\<close> runs it with its own ordering and limit 1. Flipping
  removes a leading \<^verbatim>\<open>-\<close> or adds one, which turns an ascending entry of the ORDER BY
  clause into a descending one.
\<close>

theorem last_flips_first:
  "last_query (order_by qs [CHR ''-'' # x]) = first_query (order_by qs [x]) \<and>
   build_sql (last_query (order_by qs [CHR ''-'' # x])) = build_sql (first_query (order_by qs [x])) \<and>
   last_qs eng (order_by qs [CHR ''-'' # x]) c = first eng (order_by qs [x]) c \<and>
   qs_order_by (last_query qs) =
     map flip_field (if qs_order_by qs \<noteq> [] then qs_order_by qs else [''id'']) \<and>
   qs_limit (last_query qs) = Some 1 \<and>
   qs_order_by (first_query qs) = qs_order_by qs \<and>
   qs_limit (first_query qs) = Some 1 \<and>
   flip_field f = (if startswith f ''-'' then drop 1 f else ''-'' @ f) \<and>
   order_part f = (if startswith f ''-'' then drop 1 f @ '' DESC'' else f @ '' ASC'') \<and>
   order_part (flip_field f) = (if startswith f ''-'' then order_part (drop 1 f) else f @ '' DESC'')"
proof -
  have q: "last_query (order_by qs [CHR ''-'' # x]) = first_query (order_by qs [x])"
    by (simp add: last_query_def first_query_def qs_order_by_order_by order_by_twice flip_field_dash)
  have r: "last_qs eng (order_by qs [CHR ''-'' # x]) c = first eng (order_by qs [x]) c"
    by (simp only: last_qs_def first_def q)
  have s: "qs_order_by (last_query qs) =
     map flip_field (if qs_order_by qs \<noteq> [] then qs_order_by qs else [''id'']) \<and>
   qs_limit (last_query qs) = Some 1 \<and>
   qs_order_by (first_query qs) = qs_order_by qs \<and>
   qs_limit (first_query qs) = Some 1"
    by (simp add: last_query_def first_query_def limit_def order_by_def clone_def new_queryset_def)
  have f: "flip_field f = (if startswith f ''-'' then drop 1 f else ''-'' @ f) \<and>
   order_part f = (if startswith f ''-'' then drop 1 f @ '' DESC'' else f @ '' ASC'') \<and>
   order_part (flip_field f) = (if startswith f ''-'' then order_part (drop 1 f) else f @ '' DESC'')"
    by (cases f) (auto simp: flip_field_def order_part_def startswith_def)
  have b: "build_sql (last_query (order_by qs [CHR ''-'' # x])) = build_sql (first_query (order_by qs [x]))"
    by (simp only: q)
  show ?thesis using q b r s f by blast
qed



theorem last_flips_first_witness:
  "build_sql (last_query (order_by (filter_qs (new_queryset users_model) [(''age__gte'', PInt 18)])
                            [''-created_at''])) =
     Inr (''SELECT * FROM users WHERE age >= ? ORDER BY created_at ASC LIMIT 1'', [PInt 18]) \<and>
   build_sql (first_query (order_by (filter_qs (new_queryset users_model) [(''age__gte'', PInt 18)])
                             [''created_at''])) =
     Inr (''SELECT * FROM users WHERE age >= ? ORDER BY created_at ASC LIMIT 1'', [PInt 18]) \<and>
   build_sql (last_query (new_queryset users_model)) =
     Inr (''SELECT * FROM users ORDER BY id DESC LIMIT 1'', [])"
proof -
  have a: "build_sql (first_query (order_by (filter_qs (new_queryset users_model) [(''age__gte'', PInt 18)])
                             [''created_at''])) =
     Inr (''SELECT * FROM users WHERE age >= ? ORDER BY created_at ASC LIMIT 1'', [PInt 18])"
    by code_simp
  have b: "build_sql (last_query (new_queryset users_model)) =
     Inr (''SELECT * FROM users ORDER BY id DESC LIMIT 1'', [])"
    by code_simp
  have l: "build_sql (last_query (order_by (filter_qs (new_queryset users_model) [(''age__gte'', PInt 18)])
                            [''-created_at''])) =
     Inr (''SELECT * FROM users WHERE age >= ? ORDER BY created_at ASC LIMIT 1'', [PInt 18])"
    using last_flips_first [of "filter_qs (new_queryset users_model) [(''age__gte'', PInt 18)]"
        "''created_at''", THEN conjunct2, THEN conjunct1]
    by (simp only: a)
  show ?thesis using l a b by blast
qed

subsection \<open>exists\<close>

lemma exists_issued:
  assumes "build_sql q = Inr (sql, ps)"
  shows "conn_issued (snd (exists eng q c)) =
           conn_issued c @ [(replace_first ''SELECT *'' ''SELECT 1'' sql, ps)]"
proof -
  define stmt where "stmt = replace_first ''SELECT *'' ''SELECT 1'' sql"
  obtain r c' where e: "execute eng stmt ps c = (r, c')"
    by (cases "execute eng stmt ps c") auto
  have "exists eng q c = (case r of Inl e \<Rightarrow> (Inl e, c') | Inr cur \<Rightarrow> (Inr (cur_rows cur \<noteq> []), c'))"
    using assms e by (simp add: exists_def stmt_def [symmetric] split: sum.splits)
  then show ?thesis
    using execute_issued [OF e] by (cases r) (simp_all add: stmt_def)
qed

lemma exists_result:
  assumes "build_sql q = Inr (sql, ps)"
    and "execute eng (replace_first ''SELECT *'' ''SELECT 1'' sql) ps c = (Inr cur, c')"
  shows "exists eng q c = (Inr (cur_rows cur \<noteq> []), c')"
  using assms by (simp add: exists_def)

lemma exists_default_projection:
  assumes "\<not> qs_distinct q" "qs_values_fields q = None \<or> qs_values_fields q = Some []"
    and "build_where_clause q = Inr (w, ps)"
  shows "\<exists>sql. build_sql q = Inr (sql, ps) \<and>
           replace_first ''SELECT *'' ''SELECT 1'' sql =
             ''SELECT 1 FROM '' @ table_name (qs_model q) @ w @ order_clause q @ paging_clause q"
  using assms by (auto simp: build_sql_def select_clause_def)

text \<open>
  Claim C7 fails on the code. \<^verbatim>\<open>exists\<close> replaces the text \<^verbatim>\<open>SELECT *\<close> of the built statement;
  the statement of a builder with the distinct flag begins \<^verbatim>\<open>SELECT DISTINCT *\<close> and that
  of a builder with a projection names its fields, so for both the statement is sent as
  it was built, with its projection. The lemmas above are what holds: the WHERE clause,
  the parameters and the answer are as claimed, and the projection is replaced for a
  builder without distinct flag and projection.
\<close>

theorem exists_keeps_projection:
  "build_sql (distinct_qs (new_queryset users_model)) = Inr (''SELECT DISTINCT * FROM users'', []) \<and>
   conn_issued (snd (exists eng (distinct_qs (new_queryset users_model)) c)) =
     conn_issued c @ [(''SELECT DISTINCT * FROM users'', [])] \<and>
   build_sql (values_qs (new_queryset users_model) [''name'']) = Inr (''SELECT name FROM users'', []) \<and>
   conn_issued (snd (exists eng (values_qs (new_queryset users_model) [''name'']) c)) =
     conn_issued c @ [(''SELECT name FROM users'', [])]"
proof -
  have d: "build_sql (distinct_qs (new_queryset users_model)) = Inr (''SELECT DISTINCT * FROM users'', [])"
    by code_simp
  have v: "build_sql (values_qs (new_queryset users_model) [''name'']) = Inr (''SELECT name FROM users'', [])"
    by code_simp
  have rd: "replace_first ''SELECT *'' ''SELECT 1'' ''SELECT DISTINCT * FROM users'' = ''SELECT DISTINCT * FROM users''"
    by code_simp
  have rv: "replace_first ''SELECT *'' ''SELECT 1'' ''SELECT name FROM users'' = ''SELECT name FROM users''"
    by code_simp
  show ?thesis
    using exists_issued [OF d, of eng c] exists_issued [OF v, of eng c] d v
    by (simp only: rd rv)
qed

subsection \<open>count\<close>

lemma build_where_clause_cong:
  "qs_filters a = qs_filters b \<Longrightarrow> qs_excludes a = qs_excludes b \<Longrightarrow>
   build_where_clause a = build_where_clause b"
  by (simp add: build_where_clause_def build_conditions_def cong: sum.case_cong)

lemma count_qs_cong:
  "qs_model a = qs_model b \<Longrightarrow> qs_filters a = qs_filters b \<Longrightarrow> qs_excludes a = qs_excludes b \<Longrightarrow>
   count_qs eng a c = count_qs eng b c"
  using build_where_clause_cong [of a b] by (simp add: count_qs_def cong: sum.case_cong)

lemma execute_issued_snd:
  "conn_issued (snd (execute eng sql ps c)) = conn_issued c @ [(sql, ps)]"
  by (simp add: execute_def split: prod.splits)

lemma count_result_snd:
  "snd (case x of
          (Inl e, c') \<Rightarrow> (Inl e, c')
        | (Inr cur, c') \<Rightarrow>
            (case cur_rows cur of
               [] \<Rightarrow> (Inl TypeError, c')
             | r # rest \<Rightarrow> (case r of [] \<Rightarrow> (Inl IndexError, c') | (k, v) # cols \<Rightarrow> (Inr v, c')))) = snd x"
  by (auto split: prod.splits sum.splits list.splits)

lemma count_qs_issued:
  "conn_issued (snd (count_qs eng qs c)) =
     (case build_where_clause qs of
        Inl e \<Rightarrow> conn_issued c
      | Inr (w, ps) \<Rightarrow> conn_issued c @ [(''SELECT COUNT(*) FROM '' @ table_name (qs_model qs) @ w, ps)])"
proof (cases "build_where_clause qs")
  case (Inl e)
  then show ?thesis by (simp add: count_qs_def)
next
  case (Inr p)
  obtain w ps where p: "p = (w, ps)" by (cases p) auto
  have "snd (count_qs eng qs c) =
          snd (execute eng (''SELECT COUNT(*) FROM '' @ table_name (qs_model qs) @ w) ps c)"
    unfolding count_qs_def Inr p by (simp only: sum.case prod.case count_result_snd)
  then show ?thesis by (simp only: Inr p execute_issued_snd sum.case prod.case)
qed



text \<open>
  Claim C10. \<^verbatim>\<open>count\<close> does the same whatever the ordering, limit, offset, related fields,
  distinct flag, projection and cache of the builder are; the one statement it sends is
  \<^verbatim>\<open>SELECT COUNT(*) FROM\<close> the table followed by the WHERE clause of the filters and
  exclusions, with the parameters of the clause; \<^verbatim>\<open>__len__\<close> is \<^verbatim>\<open>count\<close>. On the example
  table of three rows, a builder with limit 1 counts 3 while \<^verbatim>\<open>all\<close> returns one instance.
\<close>

theorem count_only_where:
  "count_qs eng (qs\<lparr>qs_order_by := ob, qs_limit := l, qs_offset := off, qs_select_related := sr,
                    qs_distinct := d, qs_values_fields := vf, qs_cache := ca\<rparr>) c
     = count_qs eng qs c \<and>
   conn_issued (snd (count_qs eng qs c)) =
     (case build_where_clause qs of
        Inl e \<Rightarrow> conn_issued c
      | Inr (w, ps) \<Rightarrow> conn_issued c @ [(''SELECT COUNT(*) FROM '' @ table_name (qs_model qs) @ w, ps)]) \<and>
   len_qs eng qs c = count_qs eng qs c \<and>
   fst (count_qs users_engine (limit (new_queryset users_with_fields) 1) three_users) = Inr (PInt 3) \<and>
   fst (len_qs users_engine (limit (new_queryset users_with_fields) 1) three_users) = Inr (PInt 3) \<and>
   fst (all_qs users_engine (limit (new_queryset users_with_fields) 1) three_users) =
     Inr [ModelInstance [(''id'', PInt 1), (''name'', PStr ''Alice'')]]"
proof -
  have a: "count_qs eng (qs\<lparr>qs_order_by := ob, qs_limit := l, qs_offset := off, qs_select_related := sr,
                    qs_distinct := d, qs_values_fields := vf, qs_cache := ca\<rparr>) c
     = count_qs eng qs c"
    by (rule count_qs_cong) simp_all
  have x: "fst (count_qs users_engine (limit (new_queryset users_with_fields) 1) three_users) = Inr (PInt 3)"
    by code_simp
  have y: "fst (all_qs users_engine (limit (new_queryset users_with_fields) 1) three_users) =
     Inr [ModelInstance [(''id'', PInt 1), (''name'', PStr ''Alice'')]]"
    by code_simp
  have z: "len_qs eng' q c' = count_qs eng' q c'" for eng' :: "'c engine" and q c'
    by (simp add: len_qs_def)
  show ?thesis
    using a count_qs_issued [of eng qs c] x y z [of eng qs c] z [of users_engine]
    by simp
qed

section \<open>Properties of the builder objects\<close>

lemma alloc_props:
  assumes "alloc s ob = (a, s')"
  shows "a = next_addr s" "next_addr s' = Suc (next_addr s)" "cells s' = (cells s)(next_addr s \<mapsto> ob)"
  using assms by (auto simp: alloc_def)

lemma new_builder_props:
  assumes "new_builder s m = (q, s')"
  shows "q = next_addr s + 4" "next_addr s' = next_addr s + 5"
    "cells s' = (cells s)(next_addr s \<mapsto> Lookups [], next_addr s + 1 \<mapsto> Lookups [],
        next_addr s + 2 \<mapsto> Names [], next_addr s + 3 \<mapsto> Names [],
        next_addr s + 4 \<mapsto> Builder \<lparr>o_model = m, o_filters = next_addr s,
           o_excludes = next_addr s + 1, o_order_by = next_addr s + 2, o_limit = None,
           o_offset = None, o_select_related = next_addr s + 3, o_distinct = False,
           o_values_fields = None, o_cache = None\<rparr>)"
  using assms by (auto simp: new_builder_def alloc_def)



lemma allocated_refs:
  assumes "allocated s a" "builder_at s a = Some self"
  shows "a < next_addr s" "o_filters self < next_addr s" "o_excludes self < next_addr s"
    "o_order_by self < next_addr s" "o_select_related self < next_addr s"
  using assms by (auto simp: allocated_def)

lemma lookups_at_old:
  "a < next_addr s \<Longrightarrow> next_addr s \<le> next_addr s0 \<Longrightarrow> \<forall>b < next_addr s. cells s0 b = cells s b \<Longrightarrow>
   lookups_at s0 a = lookups_at s a"
  by (simp add: lookups_at_def)

lemma names_at_old:
  "a < next_addr s \<Longrightarrow> next_addr s \<le> next_addr s0 \<Longrightarrow> \<forall>b < next_addr s. cells s0 b = cells s b \<Longrightarrow>
   names_at s0 a = names_at s a"
  by (simp add: names_at_def)

lemma clone_obj_explicit:
  assumes "allocated s a" "builder_at s a = Some self"
  shows "clone_obj s a = Some (next_addr s + 4, \<lparr>cells = clone_cells s self, next_addr = next_addr s + 9\<rparr>)"
proof -
  note r = allocated_refs [OF assms]
  obtain q s0 where nb: "new_builder s (o_model self) = (q, s0)"
    by (cases "new_builder s (o_model self)") auto
  note p = new_builder_props [OF nb]
  have old: "\<forall>b < next_addr s. cells s0 b = cells s b" by (simp add: p)
  have f0: "lookups_at s0 (o_filters self) = lookups_at s (o_filters self)"
    using r by (simp add: lookups_at_def p)
  obtain f s1 where a1: "alloc s0 (Lookups (lookups_at s0 (o_filters self))) = (f, s1)"
    by (cases "alloc s0 (Lookups (lookups_at s0 (o_filters self)))") auto
  note p1 = alloc_props [OF a1]
  have f1: "lookups_at s1 (o_excludes self) = lookups_at s (o_excludes self)"
    using r by (simp add: lookups_at_def p p1)
  obtain e s2 where a2: "alloc s1 (Lookups (lookups_at s1 (o_excludes self))) = (e, s2)"
    by (cases "alloc s1 (Lookups (lookups_at s1 (o_excludes self)))") auto
  note p2 = alloc_props [OF a2]
  have f2: "names_at s2 (o_order_by self) = names_at s (o_order_by self)"
    using r by (simp add: names_at_def p p1 p2)
  obtain ob s3 where a3: "alloc s2 (Names (names_at s2 (o_order_by self))) = (ob, s3)"
    by (cases "alloc s2 (Names (names_at s2 (o_order_by self)))") auto
  note p3 = alloc_props [OF a3]
  have f3: "names_at s3 (o_select_related self) = names_at s (o_select_related self)"
    using r by (simp add: names_at_def p p1 p2 p3)
  obtain sr s4 where a4: "alloc s3 (Names (names_at s3 (o_select_related self))) = (sr, s4)"
    by (cases "alloc s3 (Names (names_at s3 (o_select_related self)))") auto
  note p4 = alloc_props [OF a4]
  have c: "clone_obj s a = Some (q, update_builder s4 q
                        (\<lambda>b. b\<lparr>o_filters := f, o_excludes := e, o_order_by := ob,
                                o_limit := o_limit self, o_offset := o_offset self,
                                o_select_related := sr, o_distinct := o_distinct self,
                                o_values_fields := o_values_fields self\<rparr>))"
    by (simp add: clone_obj_def assms(2) nb a1 a2 a3 a4)
  have b4: "builder_at s4 q = Some \<lparr>o_model = o_model self, o_filters = next_addr s,
           o_excludes = next_addr s + 1, o_order_by = next_addr s + 2, o_limit = None,
           o_offset = None, o_select_related = next_addr s + 3, o_distinct = False,
           o_values_fields = None, o_cache = None\<rparr>"
    by (simp add: builder_at_def p p1 p2 p3 p4)
  have n4: "next_addr s4 = next_addr s + 9" by (simp add: p p1 p2 p3 p4)
  have "update_builder s4 q
                        (\<lambda>b. b\<lparr>o_filters := f, o_excludes := e, o_order_by := ob,
                                o_limit := o_limit self, o_offset := o_offset self,
                                o_select_related := sr, o_distinct := o_distinct self,
                                o_values_fields := o_values_fields self\<rparr>)
        = \<lparr>cells = clone_cells s self, next_addr = next_addr s + 9\<rparr>"
    unfolding update_builder_def b4
    by (rule store.equality)
       (auto simp: n4 clone_cells_def Let_def p p1 p2 p3 p4 f0 f1 f2 f3 fun_eq_iff)
  then show ?thesis by (simp add: c p)
qed



lemma view_allocated:
  "allocated s a \<Longrightarrow> \<exists>self. builder_at s a = Some self"
  by (auto simp: allocated_def split: option.splits)

lemma view_old:
  assumes "allocated s a" "next_addr s \<le> next_addr s'" "\<forall>b < next_addr s. cells s' b = cells s b"
  shows "view s' a = view s a" "allocated s' a"
proof -
  from view_allocated [OF assms(1)] obtain self where b: "builder_at s a = Some self" by blast
  note r = allocated_refs [OF assms(1) b]
  have vf: "\<And>x. o_values_fields self = Some x \<Longrightarrow> x < next_addr s"
    using assms(1) b by (auto simp: allocated_def)
  have b': "builder_at s' a = Some self"
    using b r(1) assms(3) by (simp add: builder_at_def)
  show "view s' a = view s a"
    using r assms(3) vf
    by (cases "o_values_fields self") (auto simp: view_def b b' lookups_at_def names_at_def)
  show "allocated s' a"
    using r assms(2) vf by (auto simp: allocated_def b' split: option.splits)
qed

lemma clone_cells_old: "b < next_addr s \<Longrightarrow> clone_cells s self b = cells s b"
  by (simp add: clone_cells_def Let_def)

lemma append_lookups_at_eq:
  "cells s a = Some (Lookups xs) \<Longrightarrow>
   append_lookups_at s a kwargs = s\<lparr>cells := (cells s)(a \<mapsto> Lookups (append_lookups xs kwargs))\<rparr>"
proof (induction s a kwargs arbitrary: xs rule: append_lookups_at.induct)
  case (1 s a)
  then show ?case by (simp add: fun_upd_idem)
next
  case (2 s a lookup v kwargs)
  obtain fname operator where pl: "parse_lookup lookup = (fname, operator)"
    by (cases "parse_lookup lookup") auto
  have c: "cells (extend_lookups s a [(fname, operator, v)]) a = Some (Lookups (xs @ [(fname, operator, v)]))"
    using "2.prems" by (simp add: extend_lookups_def lookups_at_def)
  have "append_lookups_at s a ((lookup, v) # kwargs) =
          append_lookups_at (extend_lookups s a [(fname, operator, v)]) a kwargs"
    by (simp add: pl)
  also have "\<dots> = (extend_lookups s a [(fname, operator, v)])
                    \<lparr>cells := (cells (extend_lookups s a [(fname, operator, v)]))
                       (a \<mapsto> Lookups (append_lookups (xs @ [(fname, operator, v)]) kwargs))\<rparr>"
    by (rule "2.IH" [OF pl [symmetric] c])
  also have "\<dots> = s\<lparr>cells := (cells s)(a \<mapsto> Lookups (append_lookups (xs @ [(fname, operator, v)]) kwargs))\<rparr>"
    by (simp add: extend_lookups_def)
  finally show ?case by (simp add: pl fun_upd_def)
qed

lemma view_clone:
  assumes "allocated s a" "builder_at s a = Some self" "view s a = Some v"
  shows "view \<lparr>cells = clone_cells s self, next_addr = next_addr s + 9\<rparr> (next_addr s + 4) = Some (clone v)"
proof -
  note r = allocated_refs [OF assms(1,2)]
  have vf: "\<And>x. o_values_fields self = Some x \<Longrightarrow> x < next_addr s"
    using assms(1,2) by (auto simp: allocated_def)
  have v: "v = \<lparr>qs_model = o_model self, qs_filters = lookups_at s (o_filters self),
                qs_excludes = lookups_at s (o_excludes self), qs_order_by = names_at s (o_order_by self),
                qs_limit = o_limit self, qs_offset = o_offset self,
                qs_select_related = names_at s (o_select_related self), qs_distinct = o_distinct self,
                qs_values_fields = map_option (names_at s) (o_values_fields self),
                qs_cache = o_cache self\<rparr>"
    using assms(2,3) by (simp add: view_def)
  show ?thesis
    using vf
    by (cases "o_values_fields self")
       (auto simp: v view_def builder_at_def clone_cells_def Let_def lookups_at_def names_at_def
          clone_def new_queryset_def)
qed


lemma view_unfold:
  "view s a = Some v \<Longrightarrow> builder_at s a = Some self \<Longrightarrow>
   v = \<lparr>qs_model = o_model self, qs_filters = lookups_at s (o_filters self),
                qs_excludes = lookups_at s (o_excludes self), qs_order_by = names_at s (o_order_by self),
                qs_limit = o_limit self, qs_offset = o_offset self,
                qs_select_related = names_at s (o_select_related self), qs_distinct = o_distinct self,
                qs_values_fields = map_option (names_at s) (o_values_fields self),
                qs_cache = o_cache self\<rparr>"
  by (simp add: view_def)

lemma clone_builder_at:
  "builder_at \<lparr>cells = clone_cells s self, next_addr = next_addr s + 9\<rparr> (next_addr s + 4) =
     Some \<lparr>o_model = o_model self, o_filters = next_addr s + 5, o_excludes = next_addr s + 6,
           o_order_by = next_addr s + 7, o_limit = o_limit self, o_offset = o_offset self,
           o_select_related = next_addr s + 8, o_distinct = o_distinct self,
           o_values_fields = o_values_fields self, o_cache = None\<rparr>"
  by (simp add: builder_at_def clone_cells_def Let_def)

lemma clone_allocated:
  assumes "allocated s a" "builder_at s a = Some self"
  shows "allocated \<lparr>cells = clone_cells s self, next_addr = next_addr s + 9\<rparr> (next_addr s + 4)"
  using assms
  by (auto simp: allocated_def clone_builder_at split: option.splits)

lemma filter_obj_chain:
  assumes "allocated s a" "view s a = Some v"
  shows "chain_result s a v (filter_obj s a kwargs) (filter_qs v kwargs)"
proof -
  from view_allocated [OF assms(1)] obtain self where b: "builder_at s a = Some self" by blast
  note r = allocated_refs [OF assms(1) b]
  define s1 where "s1 = \<lparr>cells = clone_cells s self, next_addr = next_addr s + 9\<rparr>"
  define q where "q = next_addr s + 4"
  have c: "clone_obj s a = Some (q, s1)"
    by (simp add: clone_obj_explicit [OF assms(1) b] s1_def q_def)
  have bq: "builder_at s1 q = Some \<lparr>o_model = o_model self, o_filters = next_addr s + 5, o_excludes = next_addr s + 6,
           o_order_by = next_addr s + 7, o_limit = o_limit self, o_offset = o_offset self,
           o_select_related = next_addr s + 8, o_distinct = o_distinct self,
           o_values_fields = o_values_fields self, o_cache = None\<rparr>"
    unfolding s1_def q_def by (rule clone_builder_at)
  have cell: "cells s1 (next_addr s + 5) = Some (Lookups (lookups_at s (o_filters self)))"
    by (simp add: s1_def clone_cells_def Let_def)
  define s' where "s' = s1\<lparr>cells := (cells s1)(next_addr s + 5 \<mapsto>
                           Lookups (append_lookups (lookups_at s (o_filters self)) kwargs))\<rparr>"
  have res: "filter_obj s a kwargs = Some (q, s')"
    by (simp add: filter_obj_def c bq append_lookups_at_eq [OF cell] s'_def)
  have old: "\<forall>b < next_addr s. cells s' b = cells s b"
    by (simp add: s'_def s1_def clone_cells_old)
  have nx: "next_addr s \<le> next_addr s'" by (simp add: s'_def s1_def)
  note vo = view_old [OF assms(1) nx old]
  have v1: "view s1 q = Some (clone v)"
    unfolding s1_def q_def by (rule view_clone [OF assms(1) b assms(2)])
  have vq: "view s' q = Some (filter_qs v kwargs)"
    using v1
    by (cases "o_values_fields self")
       (auto simp: view_def builder_at_def s'_def s1_def q_def clone_cells_def Let_def
          lookups_at_def names_at_def filter_qs_def clone_def new_queryset_def
          view_unfold [OF assms(2) b])
  have aq: "allocated s' q"
    using clone_allocated [OF assms(1) b]
    by (auto simp: allocated_def builder_at_def s'_def s1_def q_def clone_cells_def Let_def
          split: option.splits)
  have "q \<noteq> a" using r(1) by (simp add: q_def)
  moreover have "qs_cache (filter_qs v kwargs) = None"
    by (simp add: filter_qs_def Let_def clone_def new_queryset_def)
  ultimately show ?thesis
    using vo assms(2) vq aq by (simp add: chain_result_def res)
qed


lemma allocated_values_ref:
  "allocated s a \<Longrightarrow> builder_at s a = Some self \<Longrightarrow> o_values_fields self = Some x \<Longrightarrow>
   x < next_addr s"
  by (auto simp: allocated_def)

lemma chain_resultI:
  assumes "allocated s a" "view s a = Some v" "r = Some (q, s')" "next_addr s \<le> q"
    "next_addr s \<le> next_addr s'" "\<forall>b < next_addr s. cells s' b = cells s b"
    "view s' q = Some v'" "allocated s' q" "qs_cache v' = None"
  shows "chain_result s a v r v'"
proof -
  from view_allocated [OF assms(1)] obtain self where b: "builder_at s a = Some self" by blast
  have "q \<noteq> a" using allocated_refs(1) [OF assms(1) b] assms(4) by simp
  then show ?thesis
    using view_old [OF assms(1,5,6)] assms by (simp add: chain_result_def)
qed

lemma exclude_obj_chain:
  assumes "allocated s a" "view s a = Some v"
  shows "chain_result s a v (exclude_obj s a kwargs) (exclude v kwargs)"
proof -
  from view_allocated [OF assms(1)] obtain self where b: "builder_at s a = Some self" by blast
  define s1 where "s1 = \<lparr>cells = clone_cells s self, next_addr = next_addr s + 9\<rparr>"
  define q where "q = next_addr s + 4"
  have c: "clone_obj s a = Some (q, s1)"
    by (simp add: clone_obj_explicit [OF assms(1) b] s1_def q_def)
  have bq: "builder_at s1 q = Some \<lparr>o_model = o_model self, o_filters = next_addr s + 5, o_excludes = next_addr s + 6,
           o_order_by = next_addr s + 7, o_limit = o_limit self, o_offset = o_offset self,
           o_select_related = next_addr s + 8, o_distinct = o_distinct self,
           o_values_fields = o_values_fields self, o_cache = None\<rparr>"
    unfolding s1_def q_def by (rule clone_builder_at)
  have cell: "cells s1 (next_addr s + 6) = Some (Lookups (lookups_at s (o_excludes self)))"
    by (simp add: s1_def clone_cells_def Let_def)
  define s' where "s' = s1\<lparr>cells := (cells s1)(next_addr s + 6 \<mapsto>
                           Lookups (append_lookups (lookups_at s (o_excludes self)) kwargs))\<rparr>"
  have res: "exclude_obj s a kwargs = Some (q, s')"
    by (simp add: exclude_obj_def c bq append_lookups_at_eq [OF cell] s'_def)
  have old: "\<forall>b < next_addr s. cells s' b = cells s b"
    by (simp add: s'_def s1_def clone_cells_old)
  have nx: "next_addr s \<le> next_addr s'" by (simp add: s'_def s1_def)
  have vq: "view s' q = Some (exclude v kwargs)"
    using allocated_values_ref [OF assms(1) b]
    by (cases "o_values_fields self")
       (auto simp: view_def builder_at_def s'_def s1_def q_def clone_cells_def Let_def
          lookups_at_def names_at_def exclude_def clone_def new_queryset_def
          view_unfold [OF assms(2) b])
  have aq: "allocated s' q"
    using clone_allocated [OF assms(1) b]
    by (auto simp: allocated_def builder_at_def s'_def s1_def q_def clone_cells_def Let_def
          split: option.splits)
  have ca: "qs_cache (exclude v kwargs) = None"
    by (simp add: exclude_def Let_def clone_def new_queryset_def)
  show ?thesis
    by (rule chain_resultI [OF assms res _ nx old vq aq ca]) (simp add: q_def)
qed

lemma update_obj_chain:
  assumes "allocated s a" "view s a = Some v" "builder_at s a = Some self"
    and res: "r = Some (next_addr s + 4,
                update_builder \<lparr>cells = clone_cells s self, next_addr = next_addr s + 9\<rparr>
                  (next_addr s + 4) f)"
    and f: "\<And>b. f b = b\<lparr>o_limit := lim b, o_offset := off b, o_distinct := dis b\<rparr>"
    and v': "v' = (clone v)\<lparr>qs_limit := lim' , qs_offset := off', qs_distinct := dis'\<rparr>"
    and eqs: "lim' = lim (the (builder_at \<lparr>cells = clone_cells s self, next_addr = next_addr s + 9\<rparr> (next_addr s + 4)))"
       "off' = off (the (builder_at \<lparr>cells = clone_cells s self, next_addr = next_addr s + 9\<rparr> (next_addr s + 4)))"
       "dis' = dis (the (builder_at \<lparr>cells = clone_cells s self, next_addr = next_addr s + 9\<rparr> (next_addr s + 4)))"
  shows "chain_result s a v r v'"
proof -
  define s1 where "s1 = \<lparr>cells = clone_cells s self, next_addr = next_addr s + 9\<rparr>"
  define q where "q = next_addr s + 4"
  define b1 where "b1 = \<lparr>o_model = o_model self, o_filters = next_addr s + 5, o_excludes = next_addr s + 6,
           o_order_by = next_addr s + 7, o_limit = o_limit self, o_offset = o_offset self,
           o_select_related = next_addr s + 8, o_distinct = o_distinct self,
           o_values_fields = o_values_fields self, o_cache = None\<rparr>"
  have bq: "builder_at s1 q = Some b1"
    unfolding s1_def q_def b1_def by (rule clone_builder_at)
  define s' where "s' = s1\<lparr>cells := (cells s1)(q \<mapsto> Builder (f b1))\<rparr>"
  have r: "r = Some (q, s')"
    by (simp add: res update_builder_def bq [unfolded s1_def q_def] s'_def s1_def q_def)
  have old: "\<forall>b < next_addr s. cells s' b = cells s b"
    by (simp add: s'_def s1_def q_def clone_cells_old)
  have nx: "next_addr s \<le> next_addr s'" by (simp add: s'_def s1_def)
  have e: "lim' = lim b1" "off' = off b1" "dis' = dis b1"
    using eqs bq by (simp_all add: s1_def q_def)
  have vq: "view s' q = Some v'"
    using allocated_values_ref [OF assms(1,3)]
    by (cases "o_values_fields self")
       (auto simp: view_def builder_at_def s'_def s1_def q_def clone_cells_def Let_def
          lookups_at_def names_at_def v' clone_def new_queryset_def f e b1_def
          view_unfold [OF assms(2,3)])
  have aq: "allocated s' q"
    using clone_allocated [OF assms(1,3)]
    by (auto simp: allocated_def builder_at_def s'_def s1_def q_def clone_cells_def Let_def f b1_def
          split: option.splits)
  have ca: "qs_cache v' = None"
    by (simp add: v' clone_def new_queryset_def)
  show ?thesis
    by (rule chain_resultI [OF assms(1,2) r _ nx old vq aq ca]) (simp add: q_def)
qed

lemma limit_obj_chain:
  assumes "allocated s a" "view s a = Some v"
  shows "chain_result s a v (limit_obj s a n) (limit v n)"
proof -
  from view_allocated [OF assms(1)] obtain self where b: "builder_at s a = Some self" by blast
  show ?thesis
    by (rule update_obj_chain [OF assms b, where lim = "\<lambda>b. Some n" and off = o_offset and dis = o_distinct])
       (simp_all add: limit_obj_def clone_obj_explicit [OF assms(1) b] limit_def clone_builder_at
          clone_def new_queryset_def view_unfold [OF assms(2) b])
qed

lemma offset_obj_chain:
  assumes "allocated s a" "view s a = Some v"
  shows "chain_result s a v (offset_obj s a n) (offset v n)"
proof -
  from view_allocated [OF assms(1)] obtain self where b: "builder_at s a = Some self" by blast
  show ?thesis
    by (rule update_obj_chain [OF assms b, where lim = o_limit and off = "\<lambda>b. Some n" and dis = o_distinct])
       (simp_all add: offset_obj_def clone_obj_explicit [OF assms(1) b] offset_def clone_builder_at
          clone_def new_queryset_def view_unfold [OF assms(2) b])
qed

lemma distinct_obj_chain:
  assumes "allocated s a" "view s a = Some v"
  shows "chain_result s a v (distinct_obj s a) (distinct_qs v)"
proof -
  from view_allocated [OF assms(1)] obtain self where b: "builder_at s a = Some self" by blast
  show ?thesis
    by (rule update_obj_chain [OF assms b, where lim = o_limit and off = o_offset and dis = "\<lambda>b. True"])
       (simp_all add: distinct_obj_def clone_obj_explicit [OF assms(1) b] distinct_qs_def clone_builder_at
          clone_def new_queryset_def view_unfold [OF assms(2) b])
qed


lemma order_by_obj_chain:
  assumes "allocated s a" "view s a = Some v"
  shows "chain_result s a v (order_by_obj s a fs) (order_by v fs)"
proof -
  from view_allocated [OF assms(1)] obtain self where b: "builder_at s a = Some self" by blast
  define s1 where "s1 = \<lparr>cells = clone_cells s self, next_addr = next_addr s + 9\<rparr>"
  define q where "q = next_addr s + 4"
  define b1 where "b1 = \<lparr>o_model = o_model self, o_filters = next_addr s + 5, o_excludes = next_addr s + 6,
           o_order_by = next_addr s + 7, o_limit = o_limit self, o_offset = o_offset self,
           o_select_related = next_addr s + 8, o_distinct = o_distinct self,
           o_values_fields = o_values_fields self, o_cache = None\<rparr>"
  have c: "clone_obj s a = Some (q, s1)"
    by (simp add: clone_obj_explicit [OF assms(1) b] s1_def q_def)
  define s2 where "s2 = s1\<lparr>cells := (cells s1)(next_addr s + 9 \<mapsto> Names fs), next_addr := next_addr s + 10\<rparr>"
  have al: "alloc s1 (Names fs) = (next_addr s + 9, s2)"
    by (simp add: alloc_def s1_def s2_def)
  have bq: "builder_at s2 q = Some b1"
    by (simp add: builder_at_def s2_def s1_def q_def b1_def clone_cells_def Let_def)
  define s' where "s' = s2\<lparr>cells := (cells s2)(q \<mapsto> Builder (b1\<lparr>o_order_by := next_addr s + 9\<rparr>))\<rparr>"
  have res: "order_by_obj s a fs = Some (q, s')"
    by (simp add: order_by_obj_def c al update_builder_def bq s'_def)
  have old: "\<forall>b < next_addr s. cells s' b = cells s b"
    by (simp add: s'_def s2_def s1_def q_def clone_cells_old)
  have nx: "next_addr s \<le> next_addr s'" by (simp add: s'_def s2_def s1_def)
  have vq: "view s' q = Some (order_by v fs)"
    using allocated_values_ref [OF assms(1) b]
    by (cases "o_values_fields self")
       (auto simp: view_def builder_at_def s'_def s2_def s1_def q_def clone_cells_def Let_def
          lookups_at_def names_at_def order_by_def clone_def new_queryset_def b1_def
          view_unfold [OF assms(2) b])
  have aq: "allocated s' q"
    using clone_allocated [OF assms(1) b]
    by (auto simp: allocated_def builder_at_def s'_def s2_def s1_def q_def clone_cells_def Let_def b1_def
          split: option.splits)
  have ca: "qs_cache (order_by v fs) = None"
    by (simp add: order_by_def clone_def new_queryset_def)
  show ?thesis
    by (rule chain_resultI [OF assms res _ nx old vq aq ca]) (simp add: q_def)
qed

lemma values_obj_chain:
  assumes "allocated s a" "view s a = Some v"
  shows "chain_result s a v (values_obj s a fs) (values_qs v fs)"
proof -
  from view_allocated [OF assms(1)] obtain self where b: "builder_at s a = Some self" by blast
  define s1 where "s1 = \<lparr>cells = clone_cells s self, next_addr = next_addr s + 9\<rparr>"
  define q where "q = next_addr s + 4"
  define b1 where "b1 = \<lparr>o_model = o_model self, o_filters = next_addr s + 5, o_excludes = next_addr s + 6,
           o_order_by = next_addr s + 7, o_limit = o_limit self, o_offset = o_offset self,
           o_select_related = next_addr s + 8, o_distinct = o_distinct self,
           o_values_fields = o_values_fields self, o_cache = None\<rparr>"
  have c: "clone_obj s a = Some (q, s1)"
    by (simp add: clone_obj_explicit [OF assms(1) b] s1_def q_def)
  define s2 where "s2 = s1\<lparr>cells := (cells s1)(next_addr s + 9 \<mapsto> Names fs), next_addr := next_addr s + 10\<rparr>"
  have al: "alloc s1 (Names fs) = (next_addr s + 9, s2)"
    by (simp add: alloc_def s1_def s2_def)
  have bq1: "builder_at s1 q = Some b1"
    by (simp add: builder_at_def s1_def q_def b1_def clone_cells_def Let_def)
  have bq2: "builder_at s2 q = Some b1"
    by (simp add: builder_at_def s2_def s1_def q_def b1_def clone_cells_def Let_def)
  define s' where "s' = (if fs \<noteq> []
       then s2\<lparr>cells := (cells s2)(q \<mapsto> Builder (b1\<lparr>o_values_fields := Some (next_addr s + 9)\<rparr>))\<rparr>
       else s1\<lparr>cells := (cells s1)(q \<mapsto> Builder (b1\<lparr>o_values_fields := None\<rparr>))\<rparr>)"
  have res: "values_obj s a fs = Some (q, s')"
    by (simp add: values_obj_def c al update_builder_def bq1 bq2 s'_def)
  have old: "\<forall>b < next_addr s. cells s' b = cells s b"
    by (simp add: s'_def s2_def s1_def q_def clone_cells_old)
  have nx: "next_addr s \<le> next_addr s'" by (simp add: s'_def s2_def s1_def)
  have vq: "view s' q = Some (values_qs v fs)"
    by (auto simp: view_def builder_at_def s'_def s2_def s1_def q_def clone_cells_def Let_def
          lookups_at_def names_at_def values_qs_def clone_def new_queryset_def b1_def
          view_unfold [OF assms(2) b])
  have aq: "allocated s' q"
    by (auto simp: allocated_def builder_at_def s'_def s2_def s1_def q_def clone_cells_def Let_def b1_def
          split: option.splits)
  have ca: "qs_cache (values_qs v fs) = None"
    by (simp add: values_qs_def clone_def new_queryset_def)
  show ?thesis
    by (rule chain_resultI [OF assms res _ nx old vq aq ca]) (simp add: q_def)
qed

lemma select_related_obj_chain:
  assumes "allocated s a" "view s a = Some v"
  shows "chain_result s a v (select_related_obj s a fs) (select_related v fs)"
proof -
  from view_allocated [OF assms(1)] obtain self where b: "builder_at s a = Some self" by blast
  define s1 where "s1 = \<lparr>cells = clone_cells s self, next_addr = next_addr s + 9\<rparr>"
  define q where "q = next_addr s + 4"
  define b1 where "b1 = \<lparr>o_model = o_model self, o_filters = next_addr s + 5, o_excludes = next_addr s + 6,
           o_order_by = next_addr s + 7, o_limit = o_limit self, o_offset = o_offset self,
           o_select_related = next_addr s + 8, o_distinct = o_distinct self,
           o_values_fields = o_values_fields self, o_cache = None\<rparr>"
  have c: "clone_obj s a = Some (q, s1)"
    by (simp add: clone_obj_explicit [OF assms(1) b] s1_def q_def)
  have bq: "builder_at s1 q = Some b1"
    by (simp add: builder_at_def s1_def q_def b1_def clone_cells_def Let_def)
  define s' where "s' = extend_names s1 (next_addr s + 8) fs"
  have res: "select_related_obj s a fs = Some (q, s')"
    by (simp add: select_related_obj_def c bq s'_def b1_def)
  have old: "\<forall>b < next_addr s. cells s' b = cells s b"
    by (simp add: s'_def extend_names_def s1_def clone_cells_old)
  have nx: "next_addr s \<le> next_addr s'" by (simp add: s'_def extend_names_def s1_def)
  have vq: "view s' q = Some (select_related v fs)"
    using allocated_values_ref [OF assms(1) b]
    by (cases "o_values_fields self")
       (auto simp: view_def builder_at_def s'_def extend_names_def s1_def q_def clone_cells_def Let_def
          lookups_at_def names_at_def select_related_def clone_def new_queryset_def b1_def
          view_unfold [OF assms(2) b])
  have aq: "allocated s' q"
    using clone_allocated [OF assms(1) b]
    by (auto simp: allocated_def builder_at_def s'_def extend_names_def s1_def q_def clone_cells_def
          Let_def b1_def split: option.splits)
  have ca: "qs_cache (select_related v fs) = None"
    by (simp add: select_related_def Let_def clone_def new_queryset_def)
  show ?thesis
    by (rule chain_resultI [OF assms res _ nx old vq aq ca]) (simp add: q_def)
qed

text \<open>
  Claim C6. For a builder object of the store and each of \<^verbatim>\<open>filter\<close>, \<^verbatim>\<open>exclude\<close>,
  \<^verbatim>\<open>order_by\<close>, \<^verbatim>\<open>limit\<close>, \<^verbatim>\<open>offset\<close>, \<^verbatim>\<open>distinct\<close>, \<^verbatim>\<open>values\<close> and \<^verbatim>\<open>select_related\<close>: the
  call returns a new object, the receiver stands for the same state after the call as
  before it (filters, excludes, ordering, limit, offset, related fields, distinct flag,
  projection and cache), the new object stands for the state the operation gives on
  builder states, and the cache of the new object is empty whatever the cache of the
  receiver is.
\<close>

theorem chaining_frame:
  assumes "allocated s a" and "view s a = Some v"
  shows "chain_result s a v (filter_obj s a kwargs) (filter_qs v kwargs) \<and>
         chain_result s a v (exclude_obj s a kwargs) (exclude v kwargs) \<and>
         chain_result s a v (order_by_obj s a fs) (order_by v fs) \<and>
         chain_result s a v (limit_obj s a n) (limit v n) \<and>
         chain_result s a v (offset_obj s a n) (offset v n) \<and>
         chain_result s a v (distinct_obj s a) (distinct_qs v) \<and>
         chain_result s a v (values_obj s a fs) (values_qs v fs) \<and>
         chain_result s a v (select_related_obj s a fs) (select_related v fs)"
  using filter_obj_chain [OF assms] exclude_obj_chain [OF assms] order_by_obj_chain [OF assms]
    limit_obj_chain [OF assms] offset_obj_chain [OF assms] distinct_obj_chain [OF assms]
    values_obj_chain [OF assms] select_related_obj_chain [OF assms]
  by blast

theorem chaining_frame_witness:
  "allocated example_store 4 \<and> view example_store 4 = Some cached_users \<and>
   qs_cache cached_users \<noteq> None \<and>
   chain_result example_store 4 cached_users
     (filter_obj example_store 4 [(''age__gte'', PInt 18)])
     (filter_qs cached_users [(''age__gte'', PInt 18)]) \<and>
   chain_result example_store 4 cached_users
     (select_related_obj example_store 4 [''profile''])
     (select_related cached_users [''profile''])"
proof -
  have h1: "allocated example_store 4" by code_simp
  have h2: "view example_store 4 = Some cached_users"
    by (simp add: view_def example_store_def new_builder_def alloc_def update_builder_def
          builder_at_def lookups_at_def names_at_def cached_users_def new_queryset_def)
  have h3: "qs_cache cached_users \<noteq> None" by (simp add: cached_users_def)
  show ?thesis
    using chaining_frame [OF h1 h2, of "[(''age__gte'', PInt 18)]" "[''profile'']" 0] h1 h2 h3
    by blast
qed

section \<open>Properties of the migration manager\<close>

lemma execute_Inr:
  "execute eng sql ps c = (Inr cur, c') \<Longrightarrow>
   \<exists>d'. run eng sql ps (conn_db c) = (Some cur, d') \<and>
        c' = c\<lparr>conn_db := d', conn_issued := conn_issued c @ [(sql, ps)]\<rparr>"
  by (auto simp: execute_def split: prod.splits option.splits)

lemma execute_run:
  "run eng sql ps (conn_db c) = (Some cur, d') \<Longrightarrow>
   execute eng sql ps c = (Inr cur, c\<lparr>conn_db := d', conn_issued := conn_issued c @ [(sql, ps)]\<rparr>)"
  by (simp add: execute_def)

lemma ledgerD:
  assumes "ledger_engine eng led"
  shows "\<And>d cur d'. run eng create_migrations_sql [] d = (Some cur, d') \<Longrightarrow>
          led d' = Some (case led d of None \<Rightarrow> [] | Some l \<Rightarrow> l)"
    and "\<And>d l. led d = Some l \<Longrightarrow> \<exists>cur d'. run eng create_migrations_sql [] d = (Some cur, d')"
    and "\<And>d l. led d = Some l \<Longrightarrow>
          \<exists>cur d'. run eng select_applied_sql [] d = (Some cur, d') \<and>
             first_columns (cur_rows cur) = Inr (map PStr l) \<and> led d' = Some l"
    and "\<And>d l n cur d'. led d = Some l \<Longrightarrow> run eng insert_applied_sql [PStr n] d = (Some cur, d') \<Longrightarrow>
          led d' = Some (l @ [n])"
    and "\<And>d. led (commit_db eng d) = led d"
  using assms unfolding ledger_engine_def by blast+

lemma ledger_untouchedD:
  assumes "ledger_untouched eng led dir" "sql \<in> set (operation_statements dir)"
    "run eng sql [] d = (Some cur, d')"
  shows "led d' = led d"
  using assms unfolding ledger_untouched_def by blast

lemma create_migrations_table_led:
  assumes "ledger_engine eng led" "create_migrations_table eng c = (Inr (), c')"
  shows "led (conn_db c') = Some (case led (conn_db c) of None \<Rightarrow> [] | Some l \<Rightarrow> l)"
    "conn_issued c' = conn_issued c @ [(create_migrations_sql, [])]"
proof -
  from assms(2) obtain cur c1 where e: "execute eng create_migrations_sql [] c = (Inr cur, c1)"
    and c': "c' = commit eng c1"
    by (auto simp: create_migrations_table_def split: prod.splits sum.splits)
  from execute_Inr [OF e] obtain d' where r: "run eng create_migrations_sql [] (conn_db c) = (Some cur, d')"
    and c1: "c1 = c\<lparr>conn_db := d', conn_issued := conn_issued c @ [(create_migrations_sql, [])]\<rparr>"
    by blast
  show "led (conn_db c') = Some (case led (conn_db c) of None \<Rightarrow> [] | Some l \<Rightarrow> l)"
    using ledgerD(1) [OF assms(1) r] ledgerD(5) [OF assms(1)] by (simp add: c' c1 commit_def)
  show "conn_issued c' = conn_issued c @ [(create_migrations_sql, [])]"
    by (simp add: c' c1 commit_def)
qed

lemma create_migrations_table_ok:
  assumes "ledger_engine eng led" "led (conn_db c) = Some l"
  shows "\<exists>c'. create_migrations_table eng c = (Inr (), c')"
proof -
  from ledgerD(2) [OF assms] obtain cur d' where
    "run eng create_migrations_sql [] (conn_db c) = (Some cur, d')" by blast
  from execute_run [OF this] show ?thesis
    by (simp add: create_migrations_table_def)
qed

lemma get_applied_migrations_led:
  assumes "ledger_engine eng led" "led (conn_db c) = Some l"
  shows "\<exists>c'. get_applied_migrations eng c = (Inr (map PStr l), c') \<and> led (conn_db c') = Some l \<and>
              conn_issued c' = conn_issued c @ [(select_applied_sql, [])]"
proof -
  from ledgerD(3) [OF assms] obtain cur d' where
    r: "run eng select_applied_sql [] (conn_db c) = (Some cur, d')"
    and f: "first_columns (cur_rows cur) = Inr (map PStr l)" and l: "led d' = Some l" by blast
  show ?thesis
    using execute_run [OF r] f l by (simp add: get_applied_migrations_def)
qed


lemma apply_operations_led:
  assumes "ledger_untouched eng led dir" "set (map apply_sql ops) \<subseteq> set (operation_statements dir)"
    "apply_operations eng ops c = (Inr (), c')"
  shows "led (conn_db c') = led (conn_db c)"
  using assms(2,3)
proof (induction ops arbitrary: c)
  case Nil
  then show ?case by simp
next
  case (Cons op ops)
  from Cons.prems(2) obtain c1 where a: "apply_op eng op c = (Inr (), c1)"
    and rest: "apply_operations eng ops c1 = (Inr (), c')"
    by (auto split: prod.splits sum.splits)
  from a obtain cur where e: "execute eng (apply_sql op) [] c = (Inr cur, c1)"
    by (auto simp: apply_op_def split: prod.splits sum.splits)
  from execute_Inr [OF e] obtain d' where r: "run eng (apply_sql op) [] (conn_db c) = (Some cur, d')"
    and c1: "c1 = c\<lparr>conn_db := d', conn_issued := conn_issued c @ [(apply_sql op, [])]\<rparr>"
    by blast
  have "apply_sql op \<in> set (operation_statements dir)" using Cons.prems(1) by simp
  from ledger_untouchedD [OF assms(1) this r] have "led (conn_db c1) = led (conn_db c)"
    by (simp add: c1)
  moreover have "led (conn_db c') = led (conn_db c1)"
    using Cons.IH [OF _ rest] Cons.prems(1) by simp
  ultimately show ?case by simp
qed

lemma migration_apply_led:
  assumes "ledger_engine eng led" "ledger_untouched eng led dir"
    "set (map apply_sql ops) \<subseteq> set (operation_statements dir)"
    "migration_apply eng ops c = (Inr (), c')"
  shows "led (conn_db c') = led (conn_db c)"
proof -
  from assms(4) obtain c1 where a: "apply_operations eng ops c = (Inr (), c1)" and c': "c' = commit eng c1"
    by (auto simp: migration_apply_def split: prod.splits sum.splits)
  show ?thesis
    using apply_operations_led [OF assms(2,3) a] ledgerD(5) [OF assms(1)]
    by (simp add: c' commit_def)
qed

lemma mark_migration_applied_led:
  assumes "ledger_engine eng led" "led (conn_db c) = Some l"
    "mark_migration_applied eng name c = (Inr (), c')"
  shows "led (conn_db c') = Some (l @ [name])"
proof -
  from assms(3) obtain cur c1 where e: "execute eng insert_applied_sql [PStr name] c = (Inr cur, c1)"
    and c': "c' = commit eng c1"
    by (auto simp: mark_migration_applied_def split: prod.splits sum.splits)
  from execute_Inr [OF e] obtain d' where r: "run eng insert_applied_sql [PStr name] (conn_db c) = (Some cur, d')"
    and c1: "c1 = c\<lparr>conn_db := d', conn_issued := conn_issued c @ [(insert_applied_sql, [PStr name])]\<rparr>"
    by blast
  show ?thesis
    using ledgerD(4) [OF assms(1,2) r] ledgerD(5) [OF assms(1)] by (simp add: c' c1 commit_def)
qed

lemma map_of_statements:
  assumes "map_of dir k = Some (Inr ops)"
  shows "set (map apply_sql ops) \<subseteq> set (operation_statements dir)"
proof -
  have "(k, Inr ops) \<in> set dir" by (rule map_of_SomeD [OF assms])
  then show ?thesis by (force simp: operation_statements_def)
qed

lemma apply_pending_led:
  assumes "ledger_engine eng led" "ledger_untouched eng led dir" "led (conn_db c) = Some l"
    "apply_pending eng dir names c = (Inr (), c')"
  shows "led (conn_db c') = Some (l @ names)"
  using assms(3,4)
proof (induction names arbitrary: c l)
  case Nil
  then show ?case by simp
next
  case (Cons name names)
  from Cons.prems(2) obtain ops where m: "map_of dir (name @ ''.py'') = Some (Inr ops)"
    by (auto split: option.splits sum.splits)
  from Cons.prems(2) m obtain c1 where a: "migration_apply eng ops c = (Inr (), c1)"
    by (auto split: prod.splits sum.splits)
  from Cons.prems(2) m a obtain c2 where k: "mark_migration_applied eng name c1 = (Inr (), c2)"
    and rest: "apply_pending eng dir names c2 = (Inr (), c')"
    by (auto split: prod.splits sum.splits)
  have l1: "led (conn_db c1) = Some l"
    using migration_apply_led [OF assms(1,2) map_of_statements [OF m] a] Cons.prems(1) by simp
  have l2: "led (conn_db c2) = Some (l @ [name])"
    by (rule mark_migration_applied_led [OF assms(1) l1 k])
  show ?case using Cons.IH [OF l2 rest] by simp
qed

text \<open>
  Claim C9, as the code has it. On an engine that keeps the ledger, and for migration files
  whose operations leave the ledger untouched: when a run of \<^verbatim>\<open>migrate\<close> over the files of
  a directory completes without failure, the name of every migration file is in the
  ledger, and the run that follows over the same directory finds no pending migration: it
  completes, and the only statements it sends are the creation of the ledger table and the
  query for the applied names; no operation is applied and no name is recorded.
\<close>

theorem migrate_idempotent:
  assumes "ledger_engine eng led" and "ledger_untouched eng led dir"
    and "migrate eng dir c = (Inr (), c1)"
  shows "\<exists>l c2. led (conn_db c1) = Some l \<and> set (migration_files dir) \<subseteq> set l \<and>
                pending_migrations eng dir c1 = (Inr [], c2) \<and>
                migrate eng dir c1 = (Inr (), c2) \<and>
                conn_issued c2 =
                  conn_issued c1 @ [(create_migrations_sql, []), (select_applied_sql, [])] \<and>
                led (conn_db c2) = Some l"
proof -
  from assms(3) obtain pending cb where p: "pending_migrations eng dir c = (Inr pending, cb)"
    and run1: "if pending = [] then c1 = cb else apply_pending eng dir pending cb = (Inr (), c1)"
    by (auto simp: migrate_def split: prod.splits sum.splits if_splits)
  from p obtain ca where ct: "create_migrations_table eng c = (Inr (), ca)"
    by (auto simp: pending_migrations_def split: prod.splits sum.splits)
  define l0 where "l0 = (case led (conn_db c) of None \<Rightarrow> [] | Some l \<Rightarrow> l)"
  have la: "led (conn_db ca) = Some l0"
    using create_migrations_table_led(1) [OF assms(1) ct] by (simp add: l0_def)
  from get_applied_migrations_led [OF assms(1) la] obtain cb' where
    g: "get_applied_migrations eng ca = (Inr (map PStr l0), cb')" and lb: "led (conn_db cb') = Some l0"
    by blast
  have pe: "pending = filter (\<lambda>m. m \<notin> set l0) (migration_files dir)" and cb: "cb = cb'"
    using p by (auto simp: pending_migrations_def ct g image_iff intro: filter_cong)
  have l1: "led (conn_db c1) = Some (l0 @ pending)"
  proof (cases "pending = []")
    case True
    then show ?thesis using run1 lb cb by simp
  next
    case False
    then have "apply_pending eng dir pending cb = (Inr (), c1)" using run1 by simp
    from apply_pending_led [OF assms(1,2) _ this] lb cb show ?thesis by simp
  qed
  define l where "l = l0 @ pending"
  have sub: "set (migration_files dir) \<subseteq> set l"
    by (auto simp: l_def pe)
  have l1': "led (conn_db c1) = Some l" by (simp add: l1 l_def)
  from create_migrations_table_ok [OF assms(1) l1'] obtain cc where
    ct2: "create_migrations_table eng c1 = (Inr (), cc)" by blast
  have lc: "led (conn_db cc) = Some l" and ic: "conn_issued cc = conn_issued c1 @ [(create_migrations_sql, [])]"
    using create_migrations_table_led [OF assms(1) ct2] by (simp_all add: l1')
  from get_applied_migrations_led [OF assms(1) lc] obtain c2 where
    g2: "get_applied_migrations eng cc = (Inr (map PStr l), c2)" and l2: "led (conn_db c2) = Some l"
    and i2: "conn_issued c2 = conn_issued cc @ [(select_applied_sql, [])]"
    by blast
  have "filter (\<lambda>m. PStr m \<notin> set (map PStr l)) (migration_files dir) = []"
    using sub by (auto simp: filter_empty_conv)
  then have p2: "pending_migrations eng dir c1 = (Inr [], c2)"
    by (simp add: pending_migrations_def ct2 g2)
  then have m2: "migrate eng dir c1 = (Inr (), c2)"
    by (simp add: migrate_def)
  show ?thesis
    using l1' sub p2 m2 l2 by (auto simp: i2 ic)
qed

lemma first_columns_names: "first_columns (map (\<lambda>n. [(''name'', PStr n)]) l) = Inr (map PStr l)"
  by (induction l) simp_all

lemma ledger_db_engine_ok: "ledger_engine ledger_db_engine (\<lambda>d. d)"
  unfolding ledger_engine_def
  by (auto simp: ledger_db_engine_def empty_cursor_def first_columns_names
        create_migrations_sql_def select_applied_sql_def insert_applied_sql_def
        split: option.splits if_splits)

lemma example_migrations_untouched: "ledger_untouched ledger_db_engine (\<lambda>d. d) example_migrations"
proof -
  have s: "operation_statements example_migrations =
     [''ALTER TABLE users ADD COLUMN age INTEGER'',
      ''CREATE TABLE IF NOT EXISTS users (id INTEGER PRIMARY KEY, name VARCHAR(100))'']"
    by code_simp
  have a: "run ledger_db_engine ''ALTER TABLE users ADD COLUMN age INTEGER'' [] d = (Some empty_cursor, d)"
    for d
    by (simp add: ledger_db_engine_def create_migrations_sql_def select_applied_sql_def
          insert_applied_sql_def startswith_def)
  have b: "run ledger_db_engine
             ''CREATE TABLE IF NOT EXISTS users (id INTEGER PRIMARY KEY, name VARCHAR(100))'' [] d
           = (Some empty_cursor, d)" for d
    by (simp add: ledger_db_engine_def create_migrations_sql_def select_applied_sql_def
          insert_applied_sql_def startswith_def)
  show ?thesis
    unfolding ledger_untouched_def s by (auto simp: a b)
qed

theorem migrate_idempotent_witness:
  "ledger_engine ledger_db_engine (\<lambda>d. d) \<and>
   ledger_untouched ledger_db_engine (\<lambda>d. d) example_migrations \<and>
   migrate ledger_db_engine example_migrations fresh_db = (Inr (), migrated_db) \<and>
   (\<exists>c2. pending_migrations ledger_db_engine example_migrations migrated_db = (Inr [], c2) \<and>
         migrate ledger_db_engine example_migrations migrated_db = (Inr (), c2) \<and>
         conn_issued c2 =
           conn_issued migrated_db @ [(create_migrations_sql, []), (select_applied_sql, [])])"
proof -
  have h: "migrate ledger_db_engine example_migrations fresh_db = (Inr (), migrated_db)"
    by code_simp
  show ?thesis
    using migrate_idempotent [OF ledger_db_engine_ok example_migrations_untouched h]
      ledger_db_engine_ok example_migrations_untouched h
    by blast
qed

text \<open>
  The claim as stated fails: with a migration that drops the ledger table and creates it
  again, the first run completes and leaves only the name of that migration in the
  ledger, so the run that follows finds the first migration pending, applies it and
  records it a second time.
\<close>

theorem migrate_idempotent_counterexample:
  "migrate ledger_db_engine resetting_migrations fresh_db = (Inr (), reset_db) \<and>
   fst (pending_migrations ledger_db_engine resetting_migrations reset_db) = Inr [''0001_init''] \<and>
   migrate ledger_db_engine resetting_migrations reset_db = (Inr (), reapplied_db)"
  by code_simp

end
